theory Spec2Isabelle
  imports Main "HOL-Library.FSet" "HOL-Library.Multiset" "HOL-Library.Product_Lexorder"
begin

section \<open>Strings\<close>

text \<open>
  A JavaScript string is modelled as a \<^typ>\<open>string\<close>, one \<^typ>\<open>char\<close> per code point below 256.
  \<open>String.prototype.trim\<close> strips white space and line terminators from both ends; in this
  range they are TAB, LF, VT, FF, CR, SPACE and NBSP.
\<close>

definition is_whitespace :: "char \<Rightarrow> bool" where
  "is_whitespace c = (of_char c \<in> {9, 10, 11, 12, 13, 32, 160 :: nat})"

definition trim :: "string \<Rightarrow> string" where
  "trim s = rev (dropWhile is_whitespace (rev (dropWhile is_whitespace s)))"

text \<open>
  \<open>String.prototype.toLowerCase\<close> in the same range: A to Z, and the capital letters
  U+00C0 to U+00DE without the multiplication sign U+00D7, move up by 32.
\<close>

definition lower_char :: "char \<Rightarrow> char" where
  "lower_char c =
     (let n = of_char c :: nat
      in if (65 \<le> n \<and> n \<le> 90) \<or> (192 \<le> n \<and> n \<le> 222 \<and> n \<noteq> 215)
         then char_of (n + 32) else c)"

definition toLowerCase :: "string \<Rightarrow> string" where
  "toLowerCase s = map lower_char s"

text \<open>\<open>String.prototype.includes\<close>: the argument occurs as a contiguous run.\<close>

fun starts_with :: "string \<Rightarrow> string \<Rightarrow> bool" where
  "starts_with s [] = True"
| "starts_with [] (q # qs) = False"
| "starts_with (c # cs) (q # qs) = (c = q \<and> starts_with cs qs)"

fun str_includes :: "string \<Rightarrow> string \<Rightarrow> bool" where
  "str_includes [] q = (q = [])"
| "str_includes (c # cs) q = (starts_with (c # cs) q \<or> str_includes cs q)"

section \<open>Data model (types/Task.ts)\<close>

text \<open>
  A \<open>Date\<close> is modelled by its time value, the milliseconds since the epoch, as an
  \<^typ>\<open>int\<close>; an optional field is an \<^typ>\<open>'a option\<close>, with \<open>None\<close> for \<open>undefined\<close>.
  The invalid \<open>Date\<close>, whose time value is \<open>NaN\<close>, is not modelled: \<open>new Date()\<close> never
  returns it and the date pickers of the application never produce it.
\<close>

type_synonym date = int

record tag =
  tag_id :: string
  name :: string
  color :: string

record task =
  task_id :: string
  title :: string
  description :: "string option"
  completed :: bool
  dueDate :: "date option"
  tags :: "tag list"
  createdAt :: date
  updatedAt :: date

datatype TaskStatus = All | Active | Completed | Overdue

record TaskFilter =
  status :: TaskStatus
  searchQuery :: "string option"
  tagIds :: "string list option"

record CreateTaskInput =
  in_title :: string
  in_description :: "string option"
  in_dueDate :: "date option"
  in_tags :: "tag list option"

text \<open>
  The second argument of \<open>updateTask\<close> has the type
  \<open>Partial<Omit<Task, 'id' | 'createdAt'>>\<close>: each remaining field is either not mentioned
  (\<open>None\<close>) or mentioned with a value. The optional fields \<open>description\<close> and \<open>dueDate\<close> can
  be mentioned with the value \<open>undefined\<close> (\<open>Some None\<close>), as EditTaskBottomSheet does with
  \<open>dueDate: form.dueDate || undefined\<close>.
\<close>

record TaskUpdates =
  u_title :: "string option"
  u_description :: "string option option"
  u_completed :: "bool option"
  u_dueDate :: "date option option"
  u_tags :: "tag list option"
  u_updatedAt :: "date option"

definition no_updates :: TaskUpdates where
  "no_updates = \<lparr>u_title = None, u_description = None, u_completed = None,
                  u_dueDate = None, u_tags = None, u_updatedAt = None\<rparr>"

section \<open>The environment of TaskService\<close>

text \<open>
  \<open>AsyncStorage\<close> is the key-value store of the platform. The item under
  \<open>TASKS_STORAGE_KEY\<close> is modelled by the task list its JSON text encodes:
  \<open>JSON.stringify\<close> writes every field of every task, the dates as ISO strings, and the
  map in \<open>getAllTasks\<close> turns those strings back into dates, so that reading gives the
  tasks written. \<open>None\<close> is the missing item.

  A call of \<open>AsyncStorage\<close> either resolves or rejects. The schedule \<open>rejections\<close> says which
  of the coming calls reject (\<open>True\<close>); past its end every call resolves, so the empty
  schedule is a storage that serves every call. A rejected call changes nothing.
  \<open>storage_log\<close> records every call issued, with whether it resolved.

  A listener is a callback, identified here by a number; \<open>listeners\<close> is the \<open>Set\<close> of the
  registered ones and \<open>calls l\<close> counts how often listener \<open>l\<close> has been invoked. What a
  listener does when invoked is outside the store.
\<close>

datatype error = StorageError

datatype storage_call = GetItem | SetItem | RemoveItem

type_synonym listener = nat

record world =
  tasks_item :: "task list option"
  rejections :: "bool list"
  storage_log :: "(storage_call \<times> bool) list"
  listeners :: "listener fset"
  calls :: "listener \<Rightarrow> nat"

definition next_outcome :: "storage_call \<Rightarrow> world \<Rightarrow> bool \<times> world" where
  "next_outcome c w =
     (case rejections w of
        [] \<Rightarrow> (True, w\<lparr>storage_log := storage_log w @ [(c, True)]\<rparr>)
      | r # rs \<Rightarrow> (\<not> r, w\<lparr>rejections := rs, storage_log := storage_log w @ [(c, \<not> r)]\<rparr>))"

definition AsyncStorage_getItem :: "world \<Rightarrow> (error + task list option) \<times> world" where
  "AsyncStorage_getItem w =
     (case next_outcome GetItem w of
        (True, w') \<Rightarrow> (Inr (tasks_item w'), w')
      | (False, w') \<Rightarrow> (Inl StorageError, w'))"

definition AsyncStorage_setItem :: "task list \<Rightarrow> world \<Rightarrow> (error + unit) \<times> world" where
  "AsyncStorage_setItem v w =
     (case next_outcome SetItem w of
        (True, w') \<Rightarrow> (Inr (), w'\<lparr>tasks_item := Some v\<rparr>)
      | (False, w') \<Rightarrow> (Inl StorageError, w'))"

definition AsyncStorage_removeItem :: "world \<Rightarrow> (error + unit) \<times> world" where
  "AsyncStorage_removeItem w =
     (case next_outcome RemoveItem w of
        (True, w') \<Rightarrow> (Inr (), w'\<lparr>tasks_item := None\<rparr>)
      | (False, w') \<Rightarrow> (Inl StorageError, w'))"

section \<open>TaskService (services/taskService.ts)\<close>

definition subscribe :: "listener \<Rightarrow> world \<Rightarrow> world" where
  "subscribe l w = w\<lparr>listeners := finsert l (listeners w)\<rparr>"

definition unsubscribe :: "listener \<Rightarrow> world \<Rightarrow> world" where
  "unsubscribe l w = w\<lparr>listeners := listeners w |-| {|l|}\<rparr>"

text \<open>
  \<open>emitChange\<close> calls every registered listener once, each inside its own
  \<open>try\<close>/\<open>catch\<close>, so a listener that throws stops nothing.
\<close>

definition emitChange :: "world \<Rightarrow> world" where
  "emitChange w = w\<lparr>calls := (\<lambda>l. if l |\<in>| listeners w then Suc (calls w l) else calls w l)\<rparr>"

text \<open>A missing item and a rejected read both give the empty list; nothing is thrown.\<close>

definition getAllTasks :: "world \<Rightarrow> task list \<times> world" where
  "getAllTasks w =
     (case AsyncStorage_getItem w of
        (Inl e, w') \<Rightarrow> ([], w')
      | (Inr None, w') \<Rightarrow> ([], w')
      | (Inr (Some tasks), w') \<Rightarrow> (tasks, w'))"

text \<open>Listeners are notified after the write has resolved; a rejected write is rethrown.\<close>

definition saveTasks :: "task list \<Rightarrow> world \<Rightarrow> (error + unit) \<times> world" where
  "saveTasks tasks w =
     (case AsyncStorage_setItem tasks w of
        (Inl e, w') \<Rightarrow> (Inl e, w')
      | (Inr u, w') \<Rightarrow> (Inr (), emitChange w'))"

text \<open>
  \<open>generateId\<close> is imported from \<open>utils\<close>, and \<open>new Date()\<close> reads the clock: the string and
  the readings they return are arguments of the operations. \<open>createTask\<close> reads the clock
  twice, once for \<open>createdAt\<close> and once for \<open>updatedAt\<close>.
\<close>

definition newTask :: "CreateTaskInput \<Rightarrow> string \<Rightarrow> date \<Rightarrow> date \<Rightarrow> task" where
  "newTask input new_id now1 now2 =
     \<lparr>task_id = new_id,
      title = trim (in_title input),
      description = map_option trim (in_description input),
      completed = False,
      dueDate = in_dueDate input,
      tags = (case in_tags input of Some ts \<Rightarrow> ts | None \<Rightarrow> []),
      createdAt = now1,
      updatedAt = now2\<rparr>"

definition createTask ::
  "CreateTaskInput \<Rightarrow> string \<Rightarrow> date \<Rightarrow> date \<Rightarrow> world \<Rightarrow> (error + task) \<times> world" where
  "createTask input new_id now1 now2 w =
     (let t = newTask input new_id now1 now2;
          (tasks, w1) = getAllTasks w
      in case saveTasks (tasks @ [t]) w1 of
           (Inl e, w2) \<Rightarrow> (Inl e, w2)
         | (Inr u, w2) \<Rightarrow> (Inr t, w2))"

fun findIndex :: "('a \<Rightarrow> bool) \<Rightarrow> 'a list \<Rightarrow> nat option" where
  "findIndex P [] = None"
| "findIndex P (x # xs) = (if P x then Some 0 else map_option Suc (findIndex P xs))"

text \<open>
  The object spread \<open>{...tasks[taskIndex], ...updates, updatedAt: new Date()}\<close>: a
  mentioned field takes the value of \<open>updates\<close>, and \<open>updatedAt\<close> is set last.
\<close>

definition spread :: "task \<Rightarrow> TaskUpdates \<Rightarrow> task" where
  "spread t u =
     t\<lparr>title := (case u_title u of Some v \<Rightarrow> v | None \<Rightarrow> title t),
       description := (case u_description u of Some v \<Rightarrow> v | None \<Rightarrow> description t),
       completed := (case u_completed u of Some v \<Rightarrow> v | None \<Rightarrow> completed t),
       dueDate := (case u_dueDate u of Some v \<Rightarrow> v | None \<Rightarrow> dueDate t),
       tags := (case u_tags u of Some v \<Rightarrow> v | None \<Rightarrow> tags t),
       updatedAt := (case u_updatedAt u of Some v \<Rightarrow> v | None \<Rightarrow> updatedAt t)\<rparr>"

definition updatedTask :: "task \<Rightarrow> TaskUpdates \<Rightarrow> date \<Rightarrow> task" where
  "updatedTask t u now = (spread t u)\<lparr>updatedAt := now\<rparr>"

definition updateTask ::
  "string \<Rightarrow> TaskUpdates \<Rightarrow> date \<Rightarrow> world \<Rightarrow> (error + task option) \<times> world" where
  "updateTask taskId updates now w =
     (let (tasks, w1) = getAllTasks w
      in case findIndex (\<lambda>t. task_id t = taskId) tasks of
           None \<Rightarrow> (Inr None, w1)
         | Some taskIndex \<Rightarrow>
             (let t = updatedTask (tasks ! taskIndex) updates now
              in case saveTasks (tasks[taskIndex := t]) w1 of
                   (Inl e, w2) \<Rightarrow> (Inl e, w2)
                 | (Inr u, w2) \<Rightarrow> (Inr (Some t), w2)))"

definition toggleTaskCompletion ::
  "string \<Rightarrow> date \<Rightarrow> world \<Rightarrow> (error + task option) \<times> world" where
  "toggleTaskCompletion taskId now w =
     (let (tasks, w1) = getAllTasks w
      in case find (\<lambda>t. task_id t = taskId) tasks of
           None \<Rightarrow> (Inr None, w1)
         | Some t \<Rightarrow> updateTask taskId (no_updates\<lparr>u_completed := Some (\<not> completed t)\<rparr>) now w1)"

definition deleteTask :: "string \<Rightarrow> world \<Rightarrow> (error + bool) \<times> world" where
  "deleteTask taskId w =
     (let (tasks, w1) = getAllTasks w;
          filteredTasks = filter (\<lambda>t. task_id t \<noteq> taskId) tasks
      in if length filteredTasks = length tasks then (Inr False, w1)
         else case saveTasks filteredTasks w1 of
                (Inl e, w2) \<Rightarrow> (Inl e, w2)
              | (Inr u, w2) \<Rightarrow> (Inr True, w2))"

definition clearAllTasks :: "world \<Rightarrow> (error + unit) \<times> world" where
  "clearAllTasks w =
     (case AsyncStorage_removeItem w of
        (Inl e, w') \<Rightarrow> (Inl e, w')
      | (Inr u, w') \<Rightarrow> (Inr (), emitChange w'))"

text \<open>
  \<open>validateTaskInput\<close> is the separate validation step: it returns the messages and
  changes nothing. \<open>createTask\<close> does not call it; the hook \<open>addTask\<close> does, before
  \<open>createTask\<close>.
\<close>

definition validateTaskInput :: "CreateTaskInput \<Rightarrow> string list" where
  "validateTaskInput input =
     (if in_title input = [] \<or> length (trim (in_title input)) = 0
      then [''Task title is required''] else [])
     @ (if in_title input \<noteq> [] \<and> length (trim (in_title input)) > 100
        then [''Task title must be 100 characters or less''] else [])
     @ (case in_description input of
          None \<Rightarrow> []
        | Some d \<Rightarrow>
            if d \<noteq> [] \<and> length (trim d) > 500
            then [''Task description must be 500 characters or less''] else [])"

text \<open>
  Observations on a world: the tasks the stored item holds, the world after one more
  resolved call in the log, and the numbers of writing calls (\<open>setItem\<close>, \<open>removeItem\<close>)
  issued and resolved so far.
\<close>

definition stored :: "world \<Rightarrow> task list" where
  "stored w = (case tasks_item w of None \<Rightarrow> [] | Some ts \<Rightarrow> ts)"

definition logged :: "storage_call \<Rightarrow> world \<Rightarrow> world" where
  "logged c w = w\<lparr>storage_log := storage_log w @ [(c, True)]\<rparr>"

definition writes_issued :: "world \<Rightarrow> nat" where
  "writes_issued w = length (filter (\<lambda>(c, ok). c \<noteq> GetItem) (storage_log w))"

definition writes_resolved :: "world \<Rightarrow> nat" where
  "writes_resolved w = length (filter (\<lambda>(c, ok). c \<noteq> GetItem \<and> ok) (storage_log w))"

definition lookup :: "string \<Rightarrow> world \<Rightarrow> task option" where
  "lookup x w = find (\<lambda>t. task_id t = x) (stored w)"

text \<open>An operation was silent: the item is as before, no write was issued, nobody was called.\<close>

definition silent :: "world \<Rightarrow> world \<Rightarrow> bool" where
  "silent w w' =
     (tasks_item w' = tasks_item w \<and> writes_issued w' = writes_issued w \<and> calls w' = calls w)"

section \<open>The view model (hooks/useTasks.ts)\<close>

text \<open>The callback of \<open>tasks.filter\<close>: the status switch, then the search query.\<close>

definition filterCallback :: "TaskFilter \<Rightarrow> task \<Rightarrow> bool" where
  "filterCallback f t =
     (if (case status f of
            Active \<Rightarrow> completed t
          | Completed \<Rightarrow> \<not> completed t
          | All \<Rightarrow> False
          | Overdue \<Rightarrow> False) then False
      else case searchQuery f of
             None \<Rightarrow> True
           | Some q \<Rightarrow>
               if trim q \<noteq> [] then
                 (let query = toLowerCase q;
                      titleMatch = str_includes (toLowerCase (title t)) query;
                      descriptionMatch =
                        (case description t of
                           None \<Rightarrow> False
                         | Some d \<Rightarrow> str_includes (toLowerCase d) query)
                  in \<not> (\<not> titleMatch \<and> \<not> descriptionMatch))
               else True)"

text \<open>The comparator of the sort: a negative number puts \<open>a\<close> first.\<close>

definition compareTasks :: "task \<Rightarrow> task \<Rightarrow> int" where
  "compareTasks a b =
     (if completed a \<noteq> completed b then (if completed a then 1 else - 1)
      else createdAt b - createdAt a)"

text \<open>
  \<open>Array.prototype.sort\<close> is stable, and its result for a consistent comparator is the
  one stable arrangement in the comparator's order; the stable insertion sort computes it.
\<close>

fun insert_by :: "('a \<Rightarrow> 'a \<Rightarrow> int) \<Rightarrow> 'a \<Rightarrow> 'a list \<Rightarrow> 'a list" where
  "insert_by cmp x [] = [x]"
| "insert_by cmp x (y # ys) = (if cmp x y \<le> 0 then x # y # ys else y # insert_by cmp x ys)"

definition array_sort :: "('a \<Rightarrow> 'a \<Rightarrow> int) \<Rightarrow> 'a list \<Rightarrow> 'a list" where
  "array_sort cmp xs = foldr (insert_by cmp) xs []"

definition sortedFilteredTasks :: "task list \<Rightarrow> TaskFilter \<Rightarrow> task list" where
  "sortedFilteredTasks tasks f = array_sort compareTasks (filter (filterCallback f) tasks)"

text \<open>
  The derivation in the words of the specification: keep the tasks matching the status,
  keep the tasks containing the search string, sort incomplete before completed and
  newer before older. \<open>view_claimed\<close> searches whenever a search string is present;
  \<open>view_spec\<close> searches when the string present is not blank. The sort is the stable sort
  by the key \<open>(completed, - createdAt)\<close> in lexicographic order, \<open>False\<close> before \<open>True\<close>. The
  specification has the statuses all, active and completed; \<open>Overdue\<close> is given the
  behaviour of \<open>All\<close>.
\<close>

definition status_keeps :: "TaskStatus \<Rightarrow> task \<Rightarrow> bool" where
  "status_keeps s t =
     (case s of All \<Rightarrow> True | Active \<Rightarrow> \<not> completed t | Completed \<Rightarrow> completed t
      | Overdue \<Rightarrow> True)"

definition contains_ci :: "string \<Rightarrow> string \<Rightarrow> bool" where
  "contains_ci s q = str_includes (toLowerCase s) (toLowerCase q)"

definition search_keeps :: "string \<Rightarrow> task \<Rightarrow> bool" where
  "search_keeps q t =
     (contains_ci (title t) q \<or> (case description t of None \<Rightarrow> False | Some d \<Rightarrow> contains_ci d q))"

definition view_key :: "task \<Rightarrow> bool \<times> int" where
  "view_key t = (completed t, - createdAt t)"

definition view_claimed :: "task list \<Rightarrow> TaskFilter \<Rightarrow> task list" where
  "view_claimed tasks f =
     sort_key view_key
       (filter (\<lambda>t. case searchQuery f of None \<Rightarrow> True | Some q \<Rightarrow> search_keeps q t)
          (filter (status_keeps (status f)) tasks))"

definition view_spec :: "task list \<Rightarrow> TaskFilter \<Rightarrow> task list" where
  "view_spec tasks f =
     sort_key view_key
       (filter (\<lambda>t. case searchQuery f of
                       None \<Rightarrow> True
                     | Some q \<Rightarrow> if trim q = [] then True else search_keeps q t)
          (filter (status_keeps (status f)) tasks))"

text \<open>Incomplete before completed, and within a group the newer task first.\<close>

definition precedes :: "task \<Rightarrow> task \<Rightarrow> bool" where
  "precedes a b =
     ((\<not> completed a \<and> completed b) \<or> (completed a = completed b \<and> createdAt b \<le> createdAt a))"

section \<open>TagService (services/tagService.ts)\<close>

text \<open>
  The tag registry is a second item of \<open>AsyncStorage\<close>, under \<open>TAGS_STORAGE_KEY\<close>, modelled
  like the first: the tag list its JSON text encodes, the schedule of rejections and the
  log of calls. The service has no listeners.
\<close>

record tag_store =
  tags_item :: "tag list option"
  tag_rejections :: "bool list"
  tag_log :: "(storage_call \<times> bool) list"

definition TAG_COLORS :: "string list" where
  "TAG_COLORS =
     [''#FF6B6B'', ''#4ECDC4'', ''#45B7D1'', ''#96CEB4'', ''#FECA57'', ''#FF9FF3'',
      ''#54A0FF'', ''#5F27CD'', ''#00D2D3'', ''#FF9F43'', ''#8395A7'', ''#3D5A80'']"

definition tag_outcome :: "storage_call \<Rightarrow> tag_store \<Rightarrow> bool \<times> tag_store" where
  "tag_outcome c s =
     (case tag_rejections s of
        [] \<Rightarrow> (True, s\<lparr>tag_log := tag_log s @ [(c, True)]\<rparr>)
      | r # rs \<Rightarrow> (\<not> r, s\<lparr>tag_rejections := rs, tag_log := tag_log s @ [(c, \<not> r)]\<rparr>))"

definition getAllTags :: "tag_store \<Rightarrow> tag list \<times> tag_store" where
  "getAllTags s =
     (case tag_outcome GetItem s of
        (False, s') \<Rightarrow> ([], s')
      | (True, s') \<Rightarrow> (case tags_item s' of None \<Rightarrow> ([], s') | Some ts \<Rightarrow> (ts, s')))"

definition saveTags :: "tag list \<Rightarrow> tag_store \<Rightarrow> (error + unit) \<times> tag_store" where
  "saveTags ts s =
     (case tag_outcome SetItem s of
        (False, s') \<Rightarrow> (Inl StorageError, s')
      | (True, s') \<Rightarrow> (Inr (), s'\<lparr>tags_item := Some ts\<rparr>))"

text \<open>
  The first palette colour no existing tag has; when every palette colour is in use, the
  palette is indexed by the number of existing tags, modulo its length.
\<close>

definition getNextColor :: "tag list \<Rightarrow> string" where
  "getNextColor existingTags =
     (let usedColors = set (map color existingTags);
          availableColors = filter (\<lambda>c. c \<notin> usedColors) TAG_COLORS
      in if length availableColors > 0 then availableColors ! 0
         else TAG_COLORS ! (length existingTags mod length TAG_COLORS))"

text \<open>The id of a new tag is the string \<open>generateId\<close> returns, the argument \<open>new_id\<close>.\<close>

definition createOrGetTag :: "string \<Rightarrow> string \<Rightarrow> tag_store \<Rightarrow> (error + tag) \<times> tag_store" where
  "createOrGetTag nm new_id s =
     (let normalizedName = toLowerCase (trim nm);
          (existingTags, s1) = getAllTags s
      in case find (\<lambda>t. toLowerCase (name t) = normalizedName) existingTags of
           Some existingTag \<Rightarrow> (Inr existingTag, s1)
         | None \<Rightarrow>
             (let newTag = \<lparr>tag_id = new_id, name = trim nm, color = getNextColor existingTags\<rparr>
              in case saveTags (existingTags @ [newTag]) s1 of
                   (Inl e, s2) \<Rightarrow> (Inl e, s2)
                 | (Inr u, s2) \<Rightarrow> (Inr newTag, s2)))"

definition registry :: "tag_store \<Rightarrow> tag list" where
  "registry s = (case tags_item s of None \<Rightarrow> [] | Some ts \<Rightarrow> ts)"

definition tag_writes :: "tag_store \<Rightarrow> nat" where
  "tag_writes s = length (filter (\<lambda>(c, ok). c \<noteq> GetItem) (tag_log s))"

text \<open>The name of a registered tag matches an input: equal in lower case, the input trimmed.\<close>

definition name_matches :: "string \<Rightarrow> tag \<Rightarrow> bool" where
  "name_matches nm t = (toLowerCase (name t) = toLowerCase (trim nm))"

section \<open>Sequences of operations and the list model\<close>

text \<open>
  One call of the store with what the environment answers during it: the id from
  \<open>generateId\<close> and the clock readings.
\<close>

datatype operation =
    CreateTask CreateTaskInput string date date
  | UpdateTask string TaskUpdates date
  | DeleteTask string

fun run_op :: "operation \<Rightarrow> world \<Rightarrow> world" where
  "run_op (CreateTask input new_id now1 now2) w = snd (createTask input new_id now1 now2 w)"
| "run_op (UpdateTask x u now) w = snd (updateTask x u now w)"
| "run_op (DeleteTask x) w = snd (deleteTask x w)"

definition run_ops :: "operation list \<Rightarrow> world \<Rightarrow> world" where
  "run_ops ops w = fold run_op ops w"

text \<open>
  The list model of the specification: create appends the new task, update replaces the
  task located by its id with the merged record, delete takes the tasks with the id out.
\<close>

fun model_update :: "string \<Rightarrow> TaskUpdates \<Rightarrow> date \<Rightarrow> task list \<Rightarrow> task list" where
  "model_update x u now [] = []"
| "model_update x u now (t # ts) =
     (if task_id t = x then updatedTask t u now # ts else t # model_update x u now ts)"

fun model_delete :: "string \<Rightarrow> task list \<Rightarrow> task list" where
  "model_delete x [] = []"
| "model_delete x (t # ts) = (if task_id t = x then model_delete x ts else t # model_delete x ts)"

fun model_step :: "operation \<Rightarrow> task list \<Rightarrow> task list" where
  "model_step (CreateTask input new_id now1 now2) ts = ts @ [newTask input new_id now1 now2]"
| "model_step (UpdateTask x u now) ts = model_update x u now ts"
| "model_step (DeleteTask x) ts = model_delete x ts"

definition replay :: "operation list \<Rightarrow> task list" where
  "replay ops = fold model_step ops []"

section \<open>Postconditions as the specification words them\<close>

text \<open>
  Modelled from the spec: \<open>generateId\<close> lives in \<open>utils\<close>, which is not among the sources; the
  specification calls the id it assigns fresh and unique, that is, no task of the
  collection has it yet.
\<close>

definition fresh_id :: "string \<Rightarrow> task list \<Rightarrow> bool" where
  "fresh_id new_id ts = (new_id \<notin> set (map task_id ts))"

text \<open>
  After \<open>create({title: "Buy milk"})\<close> the collection holds exactly one task titled
  "Buy milk", not completed, with equal timestamps and an id no task had before.
\<close>

definition buy_milk :: CreateTaskInput where
  "buy_milk = \<lparr>in_title = ''Buy milk'', in_description = None, in_dueDate = None, in_tags = None\<rparr>"

definition create_post :: "task list \<Rightarrow> task list \<Rightarrow> bool" where
  "create_post before after =
     (length (filter (\<lambda>t. title t = ''Buy milk'' \<and> \<not> completed t \<and> createdAt t = updatedAt t
                           \<and> fresh_id (task_id t) before) after) = 1)"

text \<open>
  After two toggles the task is completed as it was at first, and its \<open>updatedAt\<close> has
  grown strictly both times. The arguments are the task before, between and after.
\<close>

definition toggle_post :: "task option \<Rightarrow> task option \<Rightarrow> task option \<Rightarrow> bool" where
  "toggle_post b m a =
     (case (b, m, a) of
        (Some t0, Some t1, Some t2) \<Rightarrow>
          completed t2 = completed t0 \<and> updatedAt t0 < updatedAt t1 \<and> updatedAt t1 < updatedAt t2
      | _ \<Rightarrow> False)"

text \<open>The colour of a new tag differs from the colour of every tag of the registry.\<close>

definition color_is_new :: "tag \<Rightarrow> tag list \<Rightarrow> bool" where
  "color_is_new t existing = (color t \<notin> set (map color existing))"

text \<open>
  Listeners were called between \<open>w\<close> and \<open>w'\<close> only if one more write resolved in between.
\<close>

definition only_after_write :: "world \<Rightarrow> world \<Rightarrow> bool" where
  "only_after_write w w' = (calls w' \<noteq> calls w \<longrightarrow> writes_resolved w' = Suc (writes_resolved w))"

section \<open>Example data\<close>

definition task_a :: task where
  "task_a = \<lparr>task_id = ''a'', title = ''Write report'', description = None, completed = False,
             dueDate = None, tags = [], createdAt = 100, updatedAt = 100\<rparr>"

definition task_b :: task where
  "task_b = \<lparr>task_id = ''b'', title = ''Call Bob'', description = Some ''about the Report'',
             completed = True, dueDate = Some 900, tags = [], createdAt = 200, updatedAt = 250\<rparr>"

definition task_c :: task where
  "task_c = \<lparr>task_id = ''c'', title = ''Laundry'', description = None, completed = False,
             dueDate = None, tags = [], createdAt = 300, updatedAt = 300\<rparr>"

text \<open>A storage that serves every call, holding two tasks, with two listeners registered.\<close>

definition world_ab :: world where
  "world_ab = \<lparr>tasks_item = Some [task_a, task_b], rejections = [], storage_log = [],
               listeners = {|1, 2|}, calls = (\<lambda>l. 0)\<rparr>"

text \<open>The same storage before anything was written.\<close>

definition world_empty :: world where
  "world_empty = \<lparr>tasks_item = None, rejections = [], storage_log = [],
                  listeners = {|1, 2|}, calls = (\<lambda>l. 0)\<rparr>"

text \<open>The same two tasks on a storage that rejects the next read, or the next write.\<close>

definition world_read_rejected :: world where
  "world_read_rejected = world_ab\<lparr>rejections := [True]\<rparr>"

definition world_write_rejected :: world where
  "world_write_rejected = world_ab\<lparr>rejections := [False, True]\<rparr>"

text \<open>
  The empty store on a storage that serves two calls and rejects the third, and two
  creations in sequence.
\<close>

definition world_flaky :: world where
  "world_flaky = world_empty\<lparr>rejections := [False, False, True]\<rparr>"

definition two_creates :: "operation list" where
  "two_creates = [CreateTask buy_milk ''n1'' 10 10, CreateTask buy_milk ''n2'' 20 20]"

text \<open>An input whose title is three spaces.\<close>

definition blank_input :: CreateTaskInput where
  "blank_input = \<lparr>in_title = ''   '', in_description = Some '' two  words '',
                  in_dueDate = None, in_tags = None\<rparr>"

text \<open>Filters of the view model: no search, a search for one space, a search in capitals.\<close>

definition all_filter :: TaskFilter where
  "all_filter = \<lparr>status = All, searchQuery = None, tagIds = None\<rparr>"

definition completed_filter :: TaskFilter where
  "completed_filter = \<lparr>status = Completed, searchQuery = None, tagIds = None\<rparr>"

definition blank_search :: TaskFilter where
  "blank_search = \<lparr>status = All, searchQuery = Some '' '', tagIds = None\<rparr>"

definition report_search :: TaskFilter where
  "report_search = \<lparr>status = All, searchQuery = Some ''REPORT'', tagIds = None\<rparr>"

text \<open>A sequence of calls: two creations, an update, an update and a deletion that miss.\<close>

definition demo_ops :: "operation list" where
  "demo_ops =
     [CreateTask buy_milk ''n1'' 10 10,
      CreateTask blank_input ''n2'' 20 21,
      UpdateTask ''n1'' (no_updates\<lparr>u_completed := Some True\<rparr>) 30,
      UpdateTask ''zz'' (no_updates\<lparr>u_title := Some ''lost''\<rparr>) 40,
      DeleteTask ''n2'',
      DeleteTask ''zz'']"

text \<open>A registry with one tag of every palette colour, and a registry of two tags.\<close>

definition full_registry :: "tag list" where
  "full_registry = map (\<lambda>c. \<lparr>tag_id = c, name = c, color = c\<rparr>) TAG_COLORS"

definition full_store :: tag_store where
  "full_store = \<lparr>tags_item = Some full_registry, tag_rejections = [], tag_log = []\<rparr>"

definition two_tags :: tag_store where
  "two_tags = \<lparr>tags_item = Some [\<lparr>tag_id = ''t1'', name = ''Home'', color = ''#FF6B6B''\<rparr>,
                                  \<lparr>tag_id = ''t2'', name = ''Work'', color = ''#45B7D1''\<rparr>],
               tag_rejections = [], tag_log = []\<rparr>"

section \<open>Reading and writing on a storage that serves its calls\<close>

lemma getAllTasks_served:
  "rejections w = [] \<Longrightarrow> getAllTasks w = (stored w, logged GetItem w)"
  by (simp add: getAllTasks_def AsyncStorage_getItem_def next_outcome_def stored_def logged_def
      split: option.splits)

lemma saveTasks_served:
  "rejections w = [] \<Longrightarrow>
   saveTasks ts w = (Inr (), emitChange ((logged SetItem w)\<lparr>tasks_item := Some ts\<rparr>))"
  by (simp add: saveTasks_def AsyncStorage_setItem_def next_outcome_def logged_def)

lemma logged_simps [simp]:
  "rejections (logged c w) = rejections w"
  "tasks_item (logged c w) = tasks_item w"
  "listeners (logged c w) = listeners w"
  "calls (logged c w) = calls w"
  "stored (logged c w) = stored w"
  by (simp_all add: logged_def stored_def)

lemma emitChange_simps [simp]:
  "rejections (emitChange w) = rejections w"
  "tasks_item (emitChange w) = tasks_item w"
  "listeners (emitChange w) = listeners w"
  "storage_log (emitChange w) = storage_log w"
  "stored (emitChange w) = stored w"
  by (simp_all add: emitChange_def stored_def)

lemma stored_update [simp]: "stored (w\<lparr>tasks_item := Some ts\<rparr>) = ts"
  by (simp add: stored_def)

text \<open>Whatever the schedule, a read returns the stored tasks or nothing, and is silent.\<close>

lemma getAllTasks_any:
  "getAllTasks w = (ts, w') \<Longrightarrow>
     (ts = stored w \<or> ts = []) \<and> silent w w' \<and> listeners w' = listeners w
     \<and> writes_resolved w' = writes_resolved w"
  by (auto simp: getAllTasks_def AsyncStorage_getItem_def next_outcome_def stored_def silent_def
      writes_issued_def writes_resolved_def
      split: option.splits list.splits if_splits sum.splits prod.splits bool.splits)

lemma filter_length_eq_iff: "length (filter P xs) = length xs \<longleftrightarrow> (\<forall>x \<in> set xs. P x)"
  by (induction xs)
    (auto simp: le_imp_less_Suc[OF length_filter_le, THEN less_imp_neq] dest: arg_cong[where f=length])

text \<open>The definitions that evaluate a call on a given world.\<close>

lemmas run_defs = toggleTaskCompletion_def updateTask_def deleteTask_def createTask_def
  clearAllTasks_def getAllTasks_def saveTasks_def
  AsyncStorage_getItem_def AsyncStorage_setItem_def AsyncStorage_removeItem_def next_outcome_def emitChange_def
  updatedTask_def spread_def no_updates_def newTask_def Let_def

section \<open>Delete\<close>

lemma deleteTask_missing:
  assumes "taskId \<notin> set (map task_id (stored w))"
  shows "fst (deleteTask taskId w) = Inr False \<and> silent w (snd (deleteTask taskId w))"
proof -
  obtain ts w1 where g: "getAllTasks w = (ts, w1)" by (cases "getAllTasks w")
  from getAllTasks_any[OF g] assms have "filter (\<lambda>t. task_id t \<noteq> taskId) ts = ts"
    by (auto simp: filter_id_conv)
  with g getAllTasks_any[OF g] show ?thesis
    by (simp add: deleteTask_def)
qed

lemma deleteTask_present:
  assumes "rejections w = []" "taskId \<in> set (map task_id (stored w))"
  shows "deleteTask taskId w =
     (Inr True, emitChange ((logged SetItem (logged GetItem w))
         \<lparr>tasks_item := Some (filter (\<lambda>t. task_id t \<noteq> taskId) (stored w))\<rparr>))"
proof -
  have "length (filter (\<lambda>t. task_id t \<noteq> taskId) (stored w)) \<noteq> length (stored w)"
    using assms(2) by (auto simp: filter_length_eq_iff)
  with assms(1) show ?thesis
    by (simp add: deleteTask_def getAllTasks_served saveTasks_served)
qed

text \<open>
  Claim C6 (delete semantics), as amended. For every store state, \<open>deleteTask x\<close> with an
  id no stored task has returns \<open>false\<close>, throws nothing and is silent: the item is
  unchanged and no write is issued, whether the read is served or not. With an id some
  stored task has, on a storage that serves its calls, it returns \<open>true\<close>, and \<open>getAllTasks\<close>
  afterwards returns the stored tasks without those of id \<open>x\<close>, so no task with id \<open>x\<close>.
  Without the condition on the storage the second half fails: when the read is rejected,
  \<open>deleteTask\<close> returns \<open>false\<close> for an id a stored task has.
\<close>

theorem deleteTask_semantics:
  "(taskId \<notin> set (map task_id (stored w)) \<longrightarrow>
      fst (deleteTask taskId w) = Inr False \<and> silent w (snd (deleteTask taskId w)))
   \<and> (taskId \<in> set (map task_id (stored w)) \<and> rejections w = [] \<longrightarrow>
      fst (deleteTask taskId w) = Inr True
      \<and> fst (getAllTasks (snd (deleteTask taskId w))) = filter (\<lambda>t. task_id t \<noteq> taskId) (stored w)
      \<and> taskId \<notin> set (map task_id (fst (getAllTasks (snd (deleteTask taskId w))))))"
proof (intro conjI impI)
  assume "taskId \<notin> set (map task_id (stored w))"
  then show "fst (deleteTask taskId w) = Inr False" "silent w (snd (deleteTask taskId w))"
    using deleteTask_missing by blast+
next
  assume a: "taskId \<in> set (map task_id (stored w)) \<and> rejections w = []"
  then have d: "deleteTask taskId w =
     (Inr True, emitChange ((logged SetItem (logged GetItem w))
         \<lparr>tasks_item := Some (filter (\<lambda>t. task_id t \<noteq> taskId) (stored w))\<rparr>))"
    using deleteTask_present by blast
  show "fst (deleteTask taskId w) = Inr True" by (simp add: d)
  show g: "fst (getAllTasks (snd (deleteTask taskId w))) = filter (\<lambda>t. task_id t \<noteq> taskId) (stored w)"
    using a by (simp add: d getAllTasks_served)
  show "taskId \<notin> set (map task_id (fst (getAllTasks (snd (deleteTask taskId w)))))"
    unfolding g by auto
qed

theorem deleteTask_semantics_counterexample:
  "''a'' \<in> set (map task_id (stored world_read_rejected))
   \<and> fst (deleteTask ''a'' world_read_rejected) = Inr False
   \<and> stored (snd (deleteTask ''a'' world_read_rejected)) = [task_a, task_b]"
  by (simp add: run_defs world_read_rejected_def world_ab_def stored_def task_a_def)

theorem deleteTask_semantics_witness:
  "''zz'' \<notin> set (map task_id (stored world_ab))
   \<and> fst (deleteTask ''zz'' world_ab) = Inr False
   \<and> silent world_ab (snd (deleteTask ''zz'' world_ab))
   \<and> ''a'' \<in> set (map task_id (stored world_ab)) \<and> rejections world_ab = []
   \<and> fst (deleteTask ''a'' world_ab) = Inr True
   \<and> fst (getAllTasks (snd (deleteTask ''a'' world_ab))) = [task_b]"
  using deleteTask_semantics [of "''zz''" world_ab] deleteTask_semantics [of "''a''" world_ab]
  by (simp add: world_ab_def stored_def task_a_def task_b_def)

section \<open>Update and toggle\<close>

lemma findIndex_None: "findIndex P xs = None \<longleftrightarrow> (\<forall>x \<in> set xs. \<not> P x)"
  by (induction xs) auto

lemma findIndex_Some:
  "findIndex P xs = Some i \<Longrightarrow> i < length xs \<and> P (xs ! i) \<and> (\<forall>j < i. \<not> P (xs ! j))"
proof (induction xs arbitrary: i)
  case Nil
  then show ?case by simp
next
  case (Cons x xs)
  show ?case
  proof (cases "P x")
    case True
    with Cons.prems show ?thesis by simp
  next
    case False
    with Cons.prems obtain k where k: "findIndex P xs = Some k" "i = Suc k"
      by auto
    from Cons.IH[OF k(1)] False k(2) show ?thesis
      by (auto simp: less_Suc_eq_0_disj)
  qed
qed

lemma find_findIndex: "find P xs = map_option ((!) xs) (findIndex P xs)"
  by (induction xs) (auto simp: option.map_comp comp_def)

lemma find_list_update:
  "findIndex P xs = Some i \<Longrightarrow> P y \<Longrightarrow> find P (xs[i := y]) = Some y"
proof (induction xs arbitrary: i)
  case Nil
  then show ?case by simp
next
  case (Cons x xs)
  then show ?case by (cases i) (auto split: if_splits)
qed

lemma findIndex_list_update:
  "findIndex P xs = Some i \<Longrightarrow> P y \<Longrightarrow> findIndex P (xs[i := y]) = Some i"
proof (induction xs arbitrary: i)
  case Nil
  then show ?case by simp
next
  case (Cons x xs)
  then show ?case by (cases i) (auto split: if_splits)
qed

lemma updatedTask_fields [simp]:
  "task_id (updatedTask t u now) = task_id t"
  "createdAt (updatedTask t u now) = createdAt t"
  "updatedAt (updatedTask t u now) = now"
  "title (updatedTask t u now) = (case u_title u of Some v \<Rightarrow> v | None \<Rightarrow> title t)"
  "description (updatedTask t u now) = (case u_description u of Some v \<Rightarrow> v | None \<Rightarrow> description t)"
  "completed (updatedTask t u now) = (case u_completed u of Some v \<Rightarrow> v | None \<Rightarrow> completed t)"
  "dueDate (updatedTask t u now) = (case u_dueDate u of Some v \<Rightarrow> v | None \<Rightarrow> dueDate t)"
  "tags (updatedTask t u now) = (case u_tags u of Some v \<Rightarrow> v | None \<Rightarrow> tags t)"
  by (simp_all add: updatedTask_def spread_def)

lemma updateTask_served:
  assumes "rejections w = []" "findIndex (\<lambda>t. task_id t = x) (stored w) = Some i"
  shows "updateTask x u now w =
     (Inr (Some (updatedTask (stored w ! i) u now)),
      emitChange ((logged SetItem (logged GetItem w))
         \<lparr>tasks_item := Some ((stored w)[i := updatedTask (stored w ! i) u now])\<rparr>))"
  using assms by (simp add: updateTask_def getAllTasks_served saveTasks_served Let_def)

lemma updateTask_served_missing:
  assumes "rejections w = []" "findIndex (\<lambda>t. task_id t = x) (stored w) = None"
  shows "updateTask x u now w = (Inr None, logged GetItem w)"
  using assms by (simp add: updateTask_def getAllTasks_served)

lemma lookup_index:
  "lookup x w = Some t0 \<Longrightarrow> \<exists>i. findIndex (\<lambda>t. task_id t = x) (stored w) = Some i \<and> stored w ! i = t0"
  by (auto simp: lookup_def find_findIndex)

text \<open>
  Claim C5 (update frame), as amended. On a storage that serves its calls, for a store whose first
  task with id \<open>x\<close> is \<open>t0\<close>, and fields that do not mention \<open>updatedAt\<close> (the type of the
  argument has no \<open>id\<close> and no \<open>createdAt\<close>): \<open>updateTask x fields\<close> returns a task \<open>t'\<close>
  and persists it as the task with id \<open>x\<close>; every mentioned field of \<open>t'\<close> has the value
  provided and every other field the value of \<open>t0\<close>; \<open>updatedAt\<close> is the clock reading of
  the call; id and \<open>createdAt\<close> are those of \<open>t0\<close>; and the collection read afterwards is the
  old one with \<open>t'\<close> in the place of \<open>t0\<close>, every other position unchanged. Without the
  condition on the storage the claim fails: when the read is rejected, \<open>updateTask\<close> returns
  \<open>null\<close> for an id a stored task has.
\<close>

theorem updateTask_frame:
  assumes "rejections w = []" and "lookup x w = Some t0" and "u_updatedAt u = None"
  shows "\<exists>t' i. fst (updateTask x u now w) = Inr (Some t')
      \<and> lookup x (snd (updateTask x u now w)) = Some t'
      \<and> title t' = (case u_title u of Some v \<Rightarrow> v | None \<Rightarrow> title t0)
      \<and> description t' = (case u_description u of Some v \<Rightarrow> v | None \<Rightarrow> description t0)
      \<and> completed t' = (case u_completed u of Some v \<Rightarrow> v | None \<Rightarrow> completed t0)
      \<and> dueDate t' = (case u_dueDate u of Some v \<Rightarrow> v | None \<Rightarrow> dueDate t0)
      \<and> tags t' = (case u_tags u of Some v \<Rightarrow> v | None \<Rightarrow> tags t0)
      \<and> updatedAt t' = now \<and> task_id t' = x \<and> task_id t0 = x \<and> createdAt t' = createdAt t0
      \<and> i < length (stored w) \<and> stored w ! i = t0 \<and> (\<forall>j < i. task_id (stored w ! j) \<noteq> x)
      \<and> fst (getAllTasks (snd (updateTask x u now w))) = (stored w)[i := t']"
proof -
  from lookup_index[OF assms(2)] obtain i
    where i: "findIndex (\<lambda>t. task_id t = x) (stored w) = Some i" "stored w ! i = t0"
    by blast
  note fi = findIndex_Some[OF i(1)]
  let ?t = "updatedTask t0 u now"
  have upd: "updateTask x u now w =
     (Inr (Some ?t), emitChange ((logged SetItem (logged GetItem w))\<lparr>tasks_item := Some ((stored w)[i := ?t])\<rparr>))"
    using updateTask_served[OF assms(1) i(1)] i(2) by simp
  have id0: "task_id t0 = x" using fi i(2) by auto
  have look: "lookup x (snd (updateTask x u now w)) = Some ?t"
    using find_list_update[OF i(1), of ?t] id0 by (simp add: upd lookup_def)
  have get: "fst (getAllTasks (snd (updateTask x u now w))) = (stored w)[i := ?t]"
    using assms(1) by (simp add: upd getAllTasks_served)
  show ?thesis
    apply (rule exI[of _ ?t], rule exI[of _ i])
    using upd look get id0 fi i(2) by simp
qed

theorem updateTask_frame_counterexample:
  "lookup ''a'' world_read_rejected = Some task_a
   \<and> u_updatedAt (no_updates\<lparr>u_title := Some ''Report''\<rparr>) = None
   \<and> fst (updateTask ''a'' (no_updates\<lparr>u_title := Some ''Report''\<rparr>) 999 world_read_rejected)
        = Inr None
   \<and> stored (snd (updateTask ''a'' (no_updates\<lparr>u_title := Some ''Report''\<rparr>) 999 world_read_rejected))
        = [task_a, task_b]"
  by (simp add: run_defs world_read_rejected_def world_ab_def lookup_def stored_def task_a_def)

theorem updateTask_frame_witness:
  "rejections world_ab = [] \<and> lookup ''b'' world_ab = Some task_b
   \<and> fst (updateTask ''b'' (no_updates\<lparr>u_title := Some ''Call Alice'', u_dueDate := Some None\<rparr>) 999 world_ab)
       = Inr (Some (task_b\<lparr>title := ''Call Alice'', dueDate := None, updatedAt := 999\<rparr>))
   \<and> fst (getAllTasks (snd (updateTask ''b'' (no_updates\<lparr>u_title := Some ''Call Alice'', u_dueDate := Some None\<rparr>) 999 world_ab)))
       = [task_a, task_b\<lparr>title := ''Call Alice'', dueDate := None, updatedAt := 999\<rparr>]"
proof -
  let ?u = "no_updates\<lparr>u_title := Some ''Call Alice'', u_dueDate := Some None\<rparr>"
  have h1: "rejections world_ab = []" by (simp add: world_ab_def)
  have h2: "lookup ''b'' world_ab = Some task_b"
    by (simp add: lookup_def stored_def world_ab_def task_a_def task_b_def)
  have h3: "u_updatedAt ?u = None" by (simp add: no_updates_def)
  have s: "stored world_ab = [task_a, task_b]" by (simp add: stored_def world_ab_def)
  from updateTask_frame [OF h1 h2 h3, of 999] obtain t' i where
    r: "fst (updateTask ''b'' ?u 999 world_ab) = Inr (Some t')"
    and f: "title t' = ''Call Alice''" "description t' = description task_b"
      "completed t' = completed task_b" "dueDate t' = None" "tags t' = tags task_b"
      "updatedAt t' = 999" "task_id t' = ''b''" "createdAt t' = createdAt task_b"
    and i: "i < length (stored world_ab)" "stored world_ab ! i = task_b"
    and g: "fst (getAllTasks (snd (updateTask ''b'' ?u 999 world_ab))) = (stored world_ab)[i := t']"
    by (auto simp: no_updates_def)
  have t': "t' = task_b\<lparr>title := ''Call Alice'', dueDate := None, updatedAt := 999\<rparr>"
    using f by (simp add: task_b_def)
  have "i = 1" using i s by (cases i) (auto simp: task_a_def task_b_def)
  with r g t' s h1 h2 show ?thesis by simp
qed

lemma toggle_served:
  assumes "rejections w = []" "findIndex (\<lambda>t. task_id t = x) (stored w) = Some i"
  shows "toggleTaskCompletion x now w =
     (Inr (Some ((stored w ! i)\<lparr>completed := \<not> completed (stored w ! i), updatedAt := now\<rparr>)),
      emitChange ((logged SetItem (logged GetItem (logged GetItem w)))
         \<lparr>tasks_item := Some ((stored w)[i := (stored w ! i)\<lparr>completed := \<not> completed (stored w ! i), updatedAt := now\<rparr>])\<rparr>))"
proof -
  have f: "find (\<lambda>t. task_id t = x) (stored w) = Some (stored w ! i)"
    using assms(2) by (simp add: find_findIndex)
  have u: "updatedTask t (no_updates\<lparr>u_completed := Some b\<rparr>) now = t\<lparr>completed := b, updatedAt := now\<rparr>" for t b
    by (simp add: updatedTask_def spread_def no_updates_def)
  show ?thesis
    using assms f by (simp add: toggleTaskCompletion_def getAllTasks_served updateTask_served u)
qed

text \<open>
  Claim C4 (toggle twice), as amended. On a storage that serves its calls, for a store
  whose first task with id \<open>x\<close> is \<open>t0\<close>: two calls of \<open>toggleTaskCompletion x\<close> in sequence
  both return the task, the second restores \<open>completed\<close> to its value in \<open>t0\<close>, and after
  each call \<open>updatedAt\<close> is the clock reading of that call. So \<open>updatedAt\<close> grows strictly
  both times when the clock has moved on before each call, \<open>updatedAt t0 < now1 < now2\<close>.
\<close>

theorem toggle_twice:
  assumes "rejections w = []" and "lookup x w = Some t0"
  shows "\<exists>w1 w2 t1 t2.
      toggleTaskCompletion x now1 w = (Inr (Some t1), w1)
      \<and> toggleTaskCompletion x now2 w1 = (Inr (Some t2), w2)
      \<and> lookup x w1 = Some t1 \<and> lookup x w2 = Some t2
      \<and> completed t1 = (\<not> completed t0) \<and> completed t2 = completed t0
      \<and> updatedAt t1 = now1 \<and> updatedAt t2 = now2
      \<and> (updatedAt t0 < now1 \<and> now1 < now2 \<longrightarrow> toggle_post (Some t0) (Some t1) (Some t2))"
proof -
  from lookup_index[OF assms(2)] obtain i
    where i: "findIndex (\<lambda>t. task_id t = x) (stored w) = Some i" "stored w ! i = t0"
    by blast
  note fi = findIndex_Some[OF i(1)]
  have id0: "task_id t0 = x" using fi i(2) by auto
  let ?t1 = "t0\<lparr>completed := \<not> completed t0, updatedAt := now1\<rparr>"
  let ?w1 = "emitChange ((logged SetItem (logged GetItem (logged GetItem w)))\<lparr>tasks_item := Some ((stored w)[i := ?t1])\<rparr>)"
  have s1: "toggleTaskCompletion x now1 w = (Inr (Some ?t1), ?w1)"
    using toggle_served[OF assms(1) i(1)] i(2) by simp
  have r1: "rejections ?w1 = []" using assms(1) by simp
  have st1: "stored ?w1 = (stored w)[i := ?t1]" by simp
  have i1: "findIndex (\<lambda>t. task_id t = x) (stored ?w1) = Some i"
    unfolding st1 using findIndex_list_update[OF i(1), of ?t1] id0 by simp
  have at1: "stored ?w1 ! i = ?t1" unfolding st1 using fi by simp
  let ?t2 = "?t1\<lparr>completed := \<not> completed ?t1, updatedAt := now2\<rparr>"
  let ?w2 = "emitChange ((logged SetItem (logged GetItem (logged GetItem ?w1)))\<lparr>tasks_item := Some ((stored ?w1)[i := ?t2])\<rparr>)"
  have s2: "toggleTaskCompletion x now2 ?w1 = (Inr (Some ?t2), ?w2)"
    using toggle_served[OF r1 i1, of now2] unfolding at1 by simp
  have l1: "lookup x ?w1 = Some ?t1"
    using i1 at1 by (simp add: lookup_def find_findIndex del: emitChange_simps logged_simps stored_update)
  have l2: "lookup x ?w2 = Some ?t2"
    unfolding lookup_def using find_list_update[OF i1, of ?t2] id0 by simp
  show ?thesis
    apply (rule exI[of _ ?w1], rule exI[of _ ?w2], rule exI[of _ ?t1], rule exI[of _ ?t2])
    using s1 s2 l1 l2 by (simp add: toggle_post_def)
qed

theorem toggle_twice_counterexample:
  "map_option updatedAt (lookup ''a'' (snd (toggleTaskCompletion ''a'' 1000 world_ab))) = Some 1000
   \<and> map_option updatedAt
        (lookup ''a'' (snd (toggleTaskCompletion ''a'' 1000 (snd (toggleTaskCompletion ''a'' 1000 world_ab)))))
       = Some 1000
   \<and> \<not> toggle_post (lookup ''a'' world_ab)
       (lookup ''a'' (snd (toggleTaskCompletion ''a'' 1000 world_ab)))
       (lookup ''a'' (snd (toggleTaskCompletion ''a'' 1000 (snd (toggleTaskCompletion ''a'' 1000 world_ab)))))"
  by (simp add: run_defs world_ab_def task_a_def task_b_def lookup_def stored_def toggle_post_def)

theorem toggle_twice_witness:
  "rejections world_ab = [] \<and> lookup ''a'' world_ab = Some task_a
   \<and> toggle_post (lookup ''a'' world_ab)
       (lookup ''a'' (snd (toggleTaskCompletion ''a'' 1000 world_ab)))
       (lookup ''a'' (snd (toggleTaskCompletion ''a'' 2000 (snd (toggleTaskCompletion ''a'' 1000 world_ab)))))"
proof -
  have h1: "rejections world_ab = []" by (simp add: world_ab_def)
  have h2: "lookup ''a'' world_ab = Some task_a"
    by (simp add: lookup_def stored_def world_ab_def task_a_def)
  have h3: "updatedAt task_a < 1000 \<and> (1000::int) < 2000" by (simp add: task_a_def)
  from toggle_twice [OF h1 h2, of 1000 2000] h3 obtain w1 w2 t1 t2 where
    "toggleTaskCompletion ''a'' 1000 world_ab = (Inr (Some t1), w1)"
    "toggleTaskCompletion ''a'' 2000 w1 = (Inr (Some t2), w2)"
    "lookup ''a'' w1 = Some t1" "lookup ''a'' w2 = Some t2"
    "toggle_post (Some task_a) (Some t1) (Some t2)"
    by blast
  with h1 h2 show ?thesis by simp
qed

section \<open>Silence and notification\<close>

lemma silent_refl [simp]: "silent w w"
  by (simp add: silent_def)

lemma silent_trans: "silent w w1 \<Longrightarrow> silent w1 w2 \<Longrightarrow> silent w w2"
  by (simp add: silent_def)

lemma saveTasks_any:
  "saveTasks ts w = (r, w') \<Longrightarrow>
     (r = Inr () \<and> tasks_item w' = Some ts \<and> writes_resolved w' = Suc (writes_resolved w)
        \<and> calls w' = (\<lambda>l. if l |\<in>| listeners w then Suc (calls w l) else calls w l))
     \<or> (r = Inl StorageError \<and> tasks_item w' = tasks_item w \<and> calls w' = calls w
        \<and> writes_resolved w' = writes_resolved w)"
  by (auto simp: saveTasks_def AsyncStorage_setItem_def next_outcome_def emitChange_def
      writes_resolved_def split: list.splits if_splits prod.splits bool.splits cong: if_cong)

lemma clearAllTasks_any:
  "clearAllTasks w = (r, w') \<Longrightarrow>
     (r = Inr () \<and> tasks_item w' = None \<and> writes_resolved w' = Suc (writes_resolved w)
        \<and> calls w' = (\<lambda>l. if l |\<in>| listeners w then Suc (calls w l) else calls w l))
     \<or> (r = Inl StorageError \<and> tasks_item w' = tasks_item w \<and> calls w' = calls w
        \<and> writes_resolved w' = writes_resolved w)"
  by (auto simp: clearAllTasks_def AsyncStorage_removeItem_def next_outcome_def emitChange_def
      writes_resolved_def split: list.splits if_splits prod.splits bool.splits cong: if_cong)

lemma updateTask_null:
  assumes "updateTask x u now w = (Inr None, w')"
  shows "silent w w'"
proof -
  obtain ts w1 where g: "getAllTasks w = (ts, w1)" by (cases "getAllTasks w")
  show ?thesis
  proof (cases "findIndex (\<lambda>t. task_id t = x) ts")
    case None
    with g assms have "w' = w1" by (simp add: updateTask_def)
    with getAllTasks_any[OF g] show ?thesis by simp
  next
    case (Some i)
    with g assms show ?thesis
      by (auto simp: updateTask_def Let_def split: prod.splits sum.splits)
  qed
qed

lemma toggle_null:
  assumes "toggleTaskCompletion x now w = (Inr None, w')"
  shows "silent w w'"
proof -
  obtain ts w1 where g: "getAllTasks w = (ts, w1)" by (cases "getAllTasks w")
  show ?thesis
  proof (cases "find (\<lambda>t. task_id t = x) ts")
    case None
    with g assms have "w' = w1" by (simp add: toggleTaskCompletion_def)
    with getAllTasks_any[OF g] show ?thesis by simp
  next
    case (Some t)
    with g assms
    have "updateTask x (no_updates\<lparr>u_completed := Some (\<not> completed t)\<rparr>) now w1 = (Inr None, w')"
      by (simp add: toggleTaskCompletion_def)
    from updateTask_null[OF this] getAllTasks_any[OF g] show ?thesis
      using silent_trans by blast
  qed
qed

lemma deleteTask_false:
  assumes "deleteTask x w = (Inr False, w')"
  shows "silent w w'"
proof -
  obtain ts w1 where g: "getAllTasks w = (ts, w1)" by (cases "getAllTasks w")
  with assms have "w' = w1"
    by (auto simp: deleteTask_def Let_def split: if_splits prod.splits sum.splits)
  with getAllTasks_any[OF g] show ?thesis by simp
qed

lemma getAllTasks_quiet: "only_after_write w (snd (getAllTasks w))"
  using getAllTasks_any[of w "fst (getAllTasks w)" "snd (getAllTasks w)"]
  by (simp add: only_after_write_def silent_def)

lemma saveTasks_notifies:
  assumes "getAllTasks w = (ts, w1)"
  shows "only_after_write w (snd (saveTasks ts' w1))"
  using getAllTasks_any[OF assms] saveTasks_any[of ts' w1 "fst (saveTasks ts' w1)" "snd (saveTasks ts' w1)"]
  by (auto simp: only_after_write_def silent_def)

lemma createTask_notifies: "only_after_write w (snd (createTask input new_id now1 now2 w))"
proof -
  obtain ts w1 where g: "getAllTasks w = (ts, w1)" by (cases "getAllTasks w")
  have "snd (createTask input new_id now1 now2 w) = snd (saveTasks (ts @ [newTask input new_id now1 now2]) w1)"
    using g by (simp add: createTask_def Let_def split: prod.splits sum.splits)
  with saveTasks_notifies[OF g] show ?thesis by simp
qed

lemma updateTask_notifies: "only_after_write w (snd (updateTask x u now w))"
proof -
  obtain ts w1 where g: "getAllTasks w = (ts, w1)" by (cases "getAllTasks w")
  show ?thesis
  proof (cases "findIndex (\<lambda>t. task_id t = x) ts")
    case None
    with g have "snd (updateTask x u now w) = w1" by (simp add: updateTask_def)
    with getAllTasks_any[OF g] show ?thesis by (simp add: only_after_write_def silent_def)
  next
    case (Some i)
    with g have "snd (updateTask x u now w) = snd (saveTasks (ts[i := updatedTask (ts ! i) u now]) w1)"
      by (simp add: updateTask_def Let_def split: prod.splits sum.splits)
    with saveTasks_notifies[OF g] show ?thesis by simp
  qed
qed

lemma toggle_notifies: "only_after_write w (snd (toggleTaskCompletion x now w))"
proof -
  obtain ts w1 where g: "getAllTasks w = (ts, w1)" by (cases "getAllTasks w")
  show ?thesis
  proof (cases "find (\<lambda>t. task_id t = x) ts")
    case None
    with g have "snd (toggleTaskCompletion x now w) = w1" by (simp add: toggleTaskCompletion_def)
    with getAllTasks_any[OF g] show ?thesis by (simp add: only_after_write_def silent_def)
  next
    case (Some t)
    with g have "snd (toggleTaskCompletion x now w)
        = snd (updateTask x (no_updates\<lparr>u_completed := Some (\<not> completed t)\<rparr>) now w1)"
      by (simp add: toggleTaskCompletion_def)
    with updateTask_notifies[of w1 x _ now] getAllTasks_any[OF g] show ?thesis
      by (simp add: only_after_write_def silent_def)
  qed
qed

lemma deleteTask_notifies: "only_after_write w (snd (deleteTask x w))"
proof -
  obtain ts w1 where g: "getAllTasks w = (ts, w1)" by (cases "getAllTasks w")
  show ?thesis
  proof (cases "length (filter (\<lambda>t. task_id t \<noteq> x) ts) = length ts")
    case True
    with g have "snd (deleteTask x w) = w1" by (simp add: deleteTask_def)
    with getAllTasks_any[OF g] show ?thesis by (simp add: only_after_write_def silent_def)
  next
    case False
    with g have "snd (deleteTask x w) = snd (saveTasks (filter (\<lambda>t. task_id t \<noteq> x) ts) w1)"
      by (simp add: deleteTask_def Let_def split: prod.splits sum.splits)
    with saveTasks_notifies[OF g] show ?thesis by simp
  qed
qed

lemma saveTasks_only: "only_after_write w (snd (saveTasks ts w)) \<and> (calls (snd (saveTasks ts w)) \<noteq> calls w \<longrightarrow> fst (saveTasks ts w) = Inr ())"
  using saveTasks_any[of ts w "fst (saveTasks ts w)" "snd (saveTasks ts w)"]
  by (auto simp: only_after_write_def)

lemma clearAllTasks_only: "only_after_write w (snd (clearAllTasks w)) \<and> (calls (snd (clearAllTasks w)) \<noteq> calls w \<longrightarrow> fst (clearAllTasks w) = Inr ())"
  using clearAllTasks_any[of w "fst (clearAllTasks w)" "snd (clearAllTasks w)"]
  by (auto simp: only_after_write_def)

text \<open>
  Claim C9 (not found is silent). Whatever the storage does: when \<open>updateTask\<close> or
  \<open>toggleTaskCompletion\<close> returns \<open>null\<close>, or \<open>deleteTask\<close> returns \<open>false\<close>, the stored item is
  as before, no write was issued and no listener was called. Listeners are called only
  from a save or a clear that succeeded: \<open>saveTasks\<close> and \<open>clearAllTasks\<close> call them only when
  they return normally, after their write has resolved, and every operation of the
  service that leaves the call counts changed has had exactly one write resolve.
\<close>

theorem not_found_is_silent:
  "(updateTask x u now w = (Inr None, w') \<longrightarrow> silent w w')
   \<and> (toggleTaskCompletion x now w = (Inr None, w') \<longrightarrow> silent w w')
   \<and> (deleteTask x w = (Inr False, w') \<longrightarrow> silent w w')
   \<and> only_after_write w (snd (saveTasks ts w))
   \<and> (calls (snd (saveTasks ts w)) \<noteq> calls w \<longrightarrow> fst (saveTasks ts w) = Inr ())
   \<and> only_after_write w (snd (clearAllTasks w))
   \<and> (calls (snd (clearAllTasks w)) \<noteq> calls w \<longrightarrow> fst (clearAllTasks w) = Inr ())
   \<and> only_after_write w (snd (getAllTasks w))
   \<and> only_after_write w (snd (createTask input new_id now1 now2 w))
   \<and> only_after_write w (snd (updateTask x u now w))
   \<and> only_after_write w (snd (toggleTaskCompletion x now w))
   \<and> only_after_write w (snd (deleteTask x w))"
proof (intro conjI impI)
  show "silent w w'" if "updateTask x u now w = (Inr None, w')"
    using that by (rule updateTask_null)
  show "silent w w'" if "toggleTaskCompletion x now w = (Inr None, w')"
    using that by (rule toggle_null)
  show "silent w w'" if "deleteTask x w = (Inr False, w')"
    using that by (rule deleteTask_false)
  show "fst (saveTasks ts w) = Inr ()" if "calls (snd (saveTasks ts w)) \<noteq> calls w"
    using that saveTasks_only by simp
  show "fst (clearAllTasks w) = Inr ()" if "calls (snd (clearAllTasks w)) \<noteq> calls w"
    using that clearAllTasks_only by simp
qed (simp_all add: saveTasks_only clearAllTasks_only getAllTasks_quiet createTask_notifies
      updateTask_notifies toggle_notifies deleteTask_notifies)



lemma calls_differ: "f (l::nat) \<noteq> (g l :: nat) \<Longrightarrow> f \<noteq> g"
  by auto

theorem not_found_is_silent_witness:
  "updateTask ''zz'' no_updates 5 world_ab = (Inr None, logged GetItem world_ab)
   \<and> toggleTaskCompletion ''zz'' 5 world_ab = (Inr None, logged GetItem world_ab)
   \<and> deleteTask ''zz'' world_ab = (Inr False, logged GetItem world_ab)
   \<and> silent world_ab (logged GetItem world_ab)
   \<and> calls (snd (saveTasks [] world_ab)) \<noteq> calls world_ab
   \<and> fst (saveTasks [] world_ab) = Inr ()
   \<and> writes_resolved (snd (saveTasks [] world_ab)) = Suc (writes_resolved world_ab)
   \<and> calls (snd (clearAllTasks world_ab)) \<noteq> calls world_ab
   \<and> fst (clearAllTasks world_ab) = Inr ()
   \<and> writes_resolved (snd (clearAllTasks world_ab)) = Suc (writes_resolved world_ab)"
proof -
  have r: "rejections world_ab = []" by (simp add: world_ab_def)
  have s: "stored world_ab = [task_a, task_b]" by (simp add: stored_def world_ab_def)
  have u: "updateTask ''zz'' no_updates 5 world_ab = (Inr None, logged GetItem world_ab)"
    using r s by (simp add: updateTask_def getAllTasks_served task_a_def task_b_def)
  have t: "toggleTaskCompletion ''zz'' 5 world_ab = (Inr None, logged GetItem world_ab)"
    using r s by (simp add: toggleTaskCompletion_def getAllTasks_served task_a_def task_b_def)
  have d: "deleteTask ''zz'' world_ab = (Inr False, logged GetItem world_ab)"
    using r s by (simp add: deleteTask_def getAllTasks_served task_a_def task_b_def)
  have n: "calls (snd (saveTasks [] world_ab)) \<noteq> calls world_ab"
    by (rule calls_differ[of _ 1]) (simp add: saveTasks_served emitChange_def logged_def world_ab_def)
  have c: "calls (snd (clearAllTasks world_ab)) \<noteq> calls world_ab"
    by (rule calls_differ[of _ 1])
      (simp add: clearAllTasks_def AsyncStorage_removeItem_def next_outcome_def emitChange_def world_ab_def)
  from not_found_is_silent [of "''zz''" no_updates 5 world_ab "logged GetItem world_ab" "[]"]
    u t d n c
  show ?thesis by (simp add: only_after_write_def)
qed

section \<open>Clear all\<close>

lemma getAllTasks_none:
  "tasks_item w = None \<Longrightarrow> fst (getAllTasks w) = []"
  using getAllTasks_any[of w "fst (getAllTasks w)" "snd (getAllTasks w)"]
  by (auto simp: stored_def)

lemma clearAllTasks_served:
  "rejections w = [] \<Longrightarrow>
   clearAllTasks w = (Inr (), emitChange ((logged RemoveItem w)\<lparr>tasks_item := None\<rparr>))"
  by (simp add: clearAllTasks_def AsyncStorage_removeItem_def next_outcome_def logged_def)

text \<open>
  Claim C7 (clear all). For every store state: when \<open>clearAllTasks\<close> returns normally,
  \<open>getAllTasks\<close> afterwards returns the empty collection, every registered listener has
  been called exactly once by that call and no other listener has been called. On a
  storage that serves its calls, \<open>clearAllTasks\<close> succeeds, and a second \<open>clearAllTasks\<close> right
  after it, on the store now empty, succeeds as well.
\<close>

theorem clearAllTasks_contract:
  "(clearAllTasks w = (Inr (), w') \<longrightarrow>
      fst (getAllTasks w') = []
      \<and> (\<forall>l. l |\<in>| listeners w \<longrightarrow> calls w' l = Suc (calls w l))
      \<and> (\<forall>l. l |\<notin>| listeners w \<longrightarrow> calls w' l = calls w l))
   \<and> (rejections w = [] \<longrightarrow>
      (\<exists>w1 w2. clearAllTasks w = (Inr (), w1) \<and> clearAllTasks w1 = (Inr (), w2)
         \<and> fst (getAllTasks w2) = []))"
proof (intro conjI impI)
  assume a: "clearAllTasks w = (Inr (), w')"
  from clearAllTasks_any[OF a]
  have i: "tasks_item w' = None"
    and c: "calls w' = (\<lambda>l. if l |\<in>| listeners w then Suc (calls w l) else calls w l)"
    by auto
  show "fst (getAllTasks w') = []" using i by (rule getAllTasks_none)
  show "\<forall>l. l |\<in>| listeners w \<longrightarrow> calls w' l = Suc (calls w l)" by (simp add: c)
  show "\<forall>l. l |\<notin>| listeners w \<longrightarrow> calls w' l = calls w l" by (simp add: c)
next
  assume r: "rejections w = []"
  let ?w1 = "emitChange ((logged RemoveItem w)\<lparr>tasks_item := None\<rparr>)"
  let ?w2 = "emitChange ((logged RemoveItem ?w1)\<lparr>tasks_item := None\<rparr>)"
  have r1: "rejections ?w1 = []" using r by simp
  have "clearAllTasks w = (Inr (), ?w1)" using r by (rule clearAllTasks_served)
  moreover have "clearAllTasks ?w1 = (Inr (), ?w2)" using r1 by (rule clearAllTasks_served)
  moreover have "fst (getAllTasks ?w2) = []" by (rule getAllTasks_none) simp
  ultimately show "\<exists>w1 w2. clearAllTasks w = (Inr (), w1) \<and> clearAllTasks w1 = (Inr (), w2)
         \<and> fst (getAllTasks w2) = []"
    by blast
qed

theorem clearAllTasks_contract_witness:
  "rejections world_ab = []
   \<and> fst (clearAllTasks world_ab) = Inr ()
   \<and> fst (getAllTasks (snd (clearAllTasks world_ab))) = []
   \<and> calls (snd (clearAllTasks world_ab)) 1 = 1
   \<and> calls (snd (clearAllTasks world_ab)) 2 = 1
   \<and> calls (snd (clearAllTasks world_ab)) 3 = 0
   \<and> fst (clearAllTasks (snd (clearAllTasks world_ab))) = Inr ()"
proof -
  have r: "rejections world_ab = []" by (simp add: world_ab_def)
  have l: "1 |\<in>| listeners world_ab" "2 |\<in>| listeners world_ab" "3 |\<notin>| listeners world_ab"
    and z: "calls world_ab 1 = 0" "calls world_ab 2 = 0" "calls world_ab 3 = 0"
    by (simp_all add: world_ab_def)
  obtain w' where c: "clearAllTasks world_ab = (Inr (), w')"
    using clearAllTasks_served[OF r] by blast
  from clearAllTasks_contract [of world_ab w'] c r l z show ?thesis
    by auto
qed



section \<open>Create\<close>

lemma rev_split:
  "xs = rev (dropWhile P (rev xs)) @ rev (takeWhile P (rev xs))"
  by (metis rev_append rev_rev_ident takeWhile_dropWhile_id)

lemma trim_decomp:
  "\<exists>a b. s = a @ trim s @ b \<and> (\<forall>c \<in> set a. is_whitespace c) \<and> (\<forall>c \<in> set b. is_whitespace c)"
proof -
  let ?d = "dropWhile is_whitespace s"
  let ?a = "takeWhile is_whitespace s"
  let ?b = "rev (takeWhile is_whitespace (rev ?d))"
  have d: "?d = trim s @ ?b"
    unfolding trim_def by (rule rev_split)
  have "s = ?a @ ?d" by simp
  with d have "s = ?a @ trim s @ ?b" by simp
  moreover have "\<forall>c \<in> set ?a. is_whitespace c" by (auto dest: set_takeWhileD)
  moreover have "\<forall>c \<in> set ?b. is_whitespace c" by (auto dest: set_takeWhileD)
  ultimately show ?thesis by blast
qed

lemma trim_ends:
  assumes "trim s \<noteq> []"
  shows "\<not> is_whitespace (hd (trim s)) \<and> \<not> is_whitespace (last (trim s))"
proof -
  let ?d = "dropWhile is_whitespace s"
  let ?e = "dropWhile is_whitespace (rev ?d)"
  have t: "trim s = rev ?e" by (simp add: trim_def)
  with assms have e: "?e \<noteq> []" by simp
  then have "\<not> is_whitespace (hd ?e)" by (rule hd_dropWhile)
  then have l: "\<not> is_whitespace (last (trim s))" using e by (simp add: t last_rev)
  have dne: "?d \<noteq> []"
  proof
    assume "?d = []"
    then have "?e = []" by (metis dropWhile.simps(1) rev.simps(1))
    with e show False by (rule notE)
  qed
  then have hd_d: "\<not> is_whitespace (hd ?d)" by (rule hd_dropWhile)
  have "?d = trim s @ rev (takeWhile is_whitespace (rev ?d))"
    unfolding trim_def by (rule rev_split)
  then have "hd ?d = hd (trim s)" using assms by (metis hd_append2)
  with hd_d l show ?thesis by simp
qed

lemma dropWhile_all: "(\<forall>c \<in> set s. P c) \<Longrightarrow> dropWhile P s = []"
  by (induction s) simp_all

lemma trim_blank:
  assumes "\<forall>c \<in> set s. is_whitespace c"
  shows "trim s = []"
  unfolding trim_def dropWhile_all[OF assms] by simp

lemma createTask_served:
  "rejections w = [] \<Longrightarrow>
   createTask input new_id now1 now2 w =
     (Inr (newTask input new_id now1 now2),
      emitChange ((logged SetItem (logged GetItem w))
         \<lparr>tasks_item := Some (stored w @ [newTask input new_id now1 now2])\<rparr>))"
  by (simp add: createTask_def getAllTasks_served saveTasks_served Let_def)

text \<open>
  Claim C10 (create trims and does not validate). On a storage that serves its calls,
  \<open>createTask\<close> returns a task for every input and appends it to the stored collection. Its
  title is the title of the input without the white space at both ends (the input title
  is white space, then the title, then white space, and a title that is not empty neither
  starts nor ends with white space); its description is trimmed likewise. An input title
  of white space only is persisted as the empty title.
\<close>

theorem createTask_trims:
  assumes "rejections w = []"
  shows "\<exists>t w'. createTask input new_id now1 now2 w = (Inr t, w')
      \<and> fst (getAllTasks w') = stored w @ [t]
      \<and> title t = trim (in_title input)
      \<and> description t = map_option trim (in_description input)
      \<and> (\<exists>a b. in_title input = a @ title t @ b
            \<and> (\<forall>c \<in> set a. is_whitespace c) \<and> (\<forall>c \<in> set b. is_whitespace c))
      \<and> (title t \<noteq> [] \<longrightarrow> \<not> is_whitespace (hd (title t)) \<and> \<not> is_whitespace (last (title t)))
      \<and> ((\<forall>c \<in> set (in_title input). is_whitespace c) \<longrightarrow> title t = [])"
proof -
  let ?t = "newTask input new_id now1 now2"
  let ?w = "emitChange ((logged SetItem (logged GetItem w))\<lparr>tasks_item := Some (stored w @ [?t])\<rparr>)"
  have c: "createTask input new_id now1 now2 w = (Inr ?t, ?w)"
    using assms by (rule createTask_served)
  have g: "fst (getAllTasks ?w) = stored w @ [?t]"
    using assms by (simp add: getAllTasks_served)
  have ti: "title ?t = trim (in_title input)" by (simp add: newTask_def)
  have de: "description ?t = map_option trim (in_description input)" by (simp add: newTask_def)
  show ?thesis
    apply (rule exI[of _ ?t], rule exI[of _ ?w])
    unfolding ti de
    using c g trim_decomp[of "in_title input"] trim_ends[of "in_title input"] trim_blank[of "in_title input"]
    by blast
qed

theorem createTask_trims_witness:
  "rejections world_ab = [] \<and> list_all is_whitespace (in_title blank_input)
   \<and> (\<exists>t. fst (createTask blank_input ''n1'' 1000 1000 world_ab) = Inr t
        \<and> fst (getAllTasks (snd (createTask blank_input ''n1'' 1000 1000 world_ab))) = [task_a, task_b, t]
        \<and> title t = [] \<and> description t = Some ''two  words'')"
proof -
  have r: "rejections world_ab = []" by (simp add: world_ab_def)
  have b: "\<forall>c \<in> set (in_title blank_input). is_whitespace c"
    by (simp add: blank_input_def is_whitespace_def)
  have s: "stored world_ab = [task_a, task_b]" by (simp add: stored_def world_ab_def)
  have d: "map_option trim (in_description blank_input) = Some ''two  words''"
    by (simp add: blank_input_def trim_def is_whitespace_def)
  from createTask_trims [OF r, of blank_input "''n1''" 1000 1000] obtain t w' where
    c: "createTask blank_input ''n1'' 1000 1000 world_ab = (Inr t, w')"
    and g: "fst (getAllTasks w') = stored world_ab @ [t]"
    and de: "description t = map_option trim (in_description blank_input)"
    and ti: "(\<forall>c \<in> set (in_title blank_input). is_whitespace c) \<longrightarrow> title t = []"
    by blast
  have "fst (createTask blank_input ''n1'' 1000 1000 world_ab) = Inr t
        \<and> fst (getAllTasks (snd (createTask blank_input ''n1'' 1000 1000 world_ab))) = [task_a, task_b, t]
        \<and> title t = [] \<and> description t = Some ''two  words''"
    using c g de ti b s d by simp
  then show ?thesis using r b by (auto simp: list_all_iff)
qed

text \<open>
  Claim C2 (create postcondition), as amended. On a storage that serves its calls, with
  an id from \<open>generateId\<close> that no stored task has: \<open>createTask({title: "Buy milk"})\<close> followed
  by \<open>getAllTasks\<close> gives the stored collection with one task appended; that task is titled
  "Buy milk", is not completed, has the new id, which exactly one task of the collection
  has, and has the first clock reading as \<open>createdAt\<close> and the second as \<open>updatedAt\<close>. When
  the two readings agree, the postcondition of the specification holds as worded.
\<close>

theorem create_buy_milk:
  assumes "rejections w = []" and "fresh_id new_id (stored w)"
  shows "\<exists>t w'. createTask buy_milk new_id now1 now2 w = (Inr t, w')
      \<and> fst (getAllTasks w') = stored w @ [t]
      \<and> title t = ''Buy milk'' \<and> \<not> completed t \<and> task_id t = new_id
      \<and> createdAt t = now1 \<and> updatedAt t = now2
      \<and> length (filter (\<lambda>u. task_id u = new_id) (fst (getAllTasks w'))) = 1
      \<and> (now1 = now2 \<longrightarrow> create_post (stored w) (fst (getAllTasks w')))"
proof -
  let ?t = "newTask buy_milk new_id now1 now2"
  let ?w = "emitChange ((logged SetItem (logged GetItem w))\<lparr>tasks_item := Some (stored w @ [?t])\<rparr>)"
  have c: "createTask buy_milk new_id now1 now2 w = (Inr ?t, ?w)"
    using assms(1) by (rule createTask_served)
  have g: "fst (getAllTasks ?w) = stored w @ [?t]"
    using assms(1) by (simp add: getAllTasks_served)
  have ti: "title ?t = ''Buy milk''"
    by (simp add: newTask_def buy_milk_def trim_def is_whitespace_def)
  have f: "task_id ?t = new_id" "\<not> completed ?t" "createdAt ?t = now1" "updatedAt ?t = now2"
    by (simp_all add: newTask_def)
  have old: "filter (\<lambda>u. task_id u = new_id) (stored w) = []"
    using assms(2) by (auto simp: fresh_id_def filter_empty_conv)
  have one: "length (filter (\<lambda>u. task_id u = new_id) (stored w @ [?t])) = 1"
    using old f by simp
  have old': "filter (\<lambda>t. title t = ''Buy milk'' \<and> \<not> completed t \<and> createdAt t = updatedAt t
                           \<and> fresh_id (task_id t) (stored w)) (stored w) = []"
    by (auto simp: fresh_id_def filter_empty_conv)
  have post: "now1 = now2 \<longrightarrow> create_post (stored w) (stored w @ [?t])"
  proof
    assume "now1 = now2"
    then have "createdAt ?t = updatedAt ?t" using f by simp
    then show "create_post (stored w) (stored w @ [?t])"
      using old' ti f(1,2) assms(2) by (simp add: create_post_def)
  qed
  show ?thesis
  proof (intro exI conjI)
    show "createTask buy_milk new_id now1 now2 w = (Inr ?t, ?w)" by (rule c)
    show "fst (getAllTasks ?w) = stored w @ [?t]" by (rule g)
    show "title ?t = ''Buy milk''" by (rule ti)
    show "\<not> completed ?t" "task_id ?t = new_id" "createdAt ?t = now1" "updatedAt ?t = now2"
      by (rule f)+
    show "length (filter (\<lambda>u. task_id u = new_id) (fst (getAllTasks ?w))) = 1"
      unfolding g by (rule one)
    show "now1 = now2 \<longrightarrow> create_post (stored w) (fst (getAllTasks ?w))"
      unfolding g by (rule post)
  qed
qed

theorem create_buy_milk_counterexample:
  "fst (createTask buy_milk ''n1'' 1000 1001 world_ab)
     = Inr \<lparr>task_id = ''n1'', title = ''Buy milk'', description = None, completed = False,
            dueDate = None, tags = [], createdAt = 1000, updatedAt = 1001\<rparr>
   \<and> \<not> create_post (stored world_ab)
       (fst (getAllTasks (snd (createTask buy_milk ''n1'' 1000 1001 world_ab))))"
  by (simp add: run_defs world_ab_def task_a_def task_b_def stored_def create_post_def buy_milk_def
      trim_def is_whitespace_def fresh_id_def)

theorem create_buy_milk_witness:
  "rejections world_ab = [] \<and> fresh_id ''n1'' (stored world_ab)
   \<and> create_post (stored world_ab)
       (fst (getAllTasks (snd (createTask buy_milk ''n1'' 1000 1000 world_ab))))"
proof -
  have r: "rejections world_ab = []" by (simp add: world_ab_def)
  have f: "fresh_id ''n1'' (stored world_ab)"
    by (simp add: fresh_id_def stored_def world_ab_def task_a_def task_b_def)
  from create_buy_milk [OF r f, of 1000 1000] obtain t w' where
    "createTask buy_milk ''n1'' 1000 1000 world_ab = (Inr t, w')"
    "create_post (stored world_ab) (fst (getAllTasks w'))"
    by auto
  then show ?thesis using r f by simp
qed

section \<open>Replay on the list model\<close>

lemma model_update_findIndex:
  "model_update x u now ts =
     (case findIndex (\<lambda>t. task_id t = x) ts of
        None \<Rightarrow> ts
      | Some i \<Rightarrow> ts[i := updatedTask (ts ! i) u now])"
  by (induction ts) (auto split: option.splits)

lemma model_delete_filter: "model_delete x ts = filter (\<lambda>t. task_id t \<noteq> x) ts"
  by (induction ts) auto

lemma deleteTask_served:
  assumes "rejections w = []"
  shows "rejections (snd (deleteTask x w)) = []
     \<and> stored (snd (deleteTask x w)) = filter (\<lambda>t. task_id t \<noteq> x) (stored w)"
proof (cases "length (filter (\<lambda>t. task_id t \<noteq> x) (stored w)) = length (stored w)")
  case True
  then have "filter (\<lambda>t. task_id t \<noteq> x) (stored w) = stored w"
    by (simp add: filter_length_eq_iff filter_id_conv)
  with True assms show ?thesis
    by (simp add: deleteTask_def getAllTasks_served)
next
  case False
  with assms show ?thesis
    by (simp add: deleteTask_def getAllTasks_served saveTasks_served)
qed

lemma run_op_served:
  assumes "rejections w = []"
  shows "rejections (run_op op w) = [] \<and> stored (run_op op w) = model_step op (stored w)"
proof (cases op)
  case (CreateTask input new_id now1 now2)
  with assms show ?thesis by (simp add: createTask_served)
next
  case (UpdateTask x u now)
  show ?thesis
  proof (cases "findIndex (\<lambda>t. task_id t = x) (stored w)")
    case None
    with assms UpdateTask show ?thesis
      by (simp add: updateTask_served_missing model_update_findIndex)
  next
    case (Some i)
    with assms UpdateTask show ?thesis
      by (simp add: updateTask_served model_update_findIndex)
  qed
next
  case (DeleteTask x)
  with deleteTask_served[OF assms, of x] show ?thesis
    by (simp add: model_delete_filter)
qed

lemma run_ops_served:
  "rejections w = [] \<Longrightarrow>
     rejections (run_ops ops w) = [] \<and> stored (run_ops ops w) = fold model_step ops (stored w)"
proof (induction ops arbitrary: w)
  case Nil
  then show ?case by (simp add: run_ops_def)
next
  case (Cons op ops)
  from run_op_served[OF Cons.prems, of op]
  have r: "rejections (run_op op w) = []"
    and s: "stored (run_op op w) = model_step op (stored w)"
    by simp_all
  from Cons.IH[OF r] s show ?case
    by (simp add: run_ops_def)
qed

text \<open>
  Claim C1 (sequential replay), as amended. On a storage that serves its calls, starting from the
  empty store: after any sequence of \<open>createTask\<close>, \<open>updateTask\<close> and \<open>deleteTask\<close> calls, run
  one after the other, \<open>getAllTasks\<close> returns the list that replaying the sequence on the
  list model gives from the empty list; so the same multiset, no task lost and none
  duplicated. Each call of the sequence comes with the id and the clock readings it was
  given, and the replay uses the same. Without the condition on the storage the claim
  fails: a rejected read is taken for an empty collection, and the write that follows it
  drops the tasks stored before.
\<close>

theorem replay_equivalence:
  assumes "rejections w = []" and "tasks_item w = None"
  shows "fst (getAllTasks (run_ops ops w)) = replay ops
     \<and> mset (fst (getAllTasks (run_ops ops w))) = mset (replay ops)"
proof -
  from assms(2) have e: "stored w = []" by (simp add: stored_def)
  from run_ops_served[OF assms(1), of ops] e
  have "rejections (run_ops ops w) = []" and "stored (run_ops ops w) = replay ops"
    by (simp_all add: replay_def)
  then show ?thesis by (simp add: getAllTasks_served)
qed

theorem replay_equivalence_counterexample:
  "tasks_item world_flaky = None
   \<and> fst (createTask buy_milk ''n1'' 10 10 world_flaky) = Inr (newTask buy_milk ''n1'' 10 10)
   \<and> fst (createTask buy_milk ''n2'' 20 20 (snd (createTask buy_milk ''n1'' 10 10 world_flaky)))
        = Inr (newTask buy_milk ''n2'' 20 20)
   \<and> fst (getAllTasks (run_ops two_creates world_flaky)) = [newTask buy_milk ''n2'' 20 20]
   \<and> replay two_creates = [newTask buy_milk ''n1'' 10 10, newTask buy_milk ''n2'' 20 20]
   \<and> mset (fst (getAllTasks (run_ops two_creates world_flaky))) \<noteq> mset (replay two_creates)"
proof -
  have g: "fst (getAllTasks (run_ops two_creates world_flaky)) = [newTask buy_milk ''n2'' 20 20]"
    by (simp add: run_ops_def two_creates_def world_flaky_def world_empty_def
        createTask_def getAllTasks_def saveTasks_def AsyncStorage_getItem_def
        AsyncStorage_setItem_def next_outcome_def emitChange_def Let_def)
  have r: "replay two_creates = [newTask buy_milk ''n1'' 10 10, newTask buy_milk ''n2'' 20 20]"
    by (simp add: replay_def two_creates_def)
  have "size (mset (fst (getAllTasks (run_ops two_creates world_flaky)))) \<noteq> size (mset (replay two_creates))"
    unfolding g r by simp
  then have m: "mset (fst (getAllTasks (run_ops two_creates world_flaky))) \<noteq> mset (replay two_creates)"
    by (rule contrapos_nn) (rule arg_cong)
  have c: "tasks_item world_flaky = None
   \<and> fst (createTask buy_milk ''n1'' 10 10 world_flaky) = Inr (newTask buy_milk ''n1'' 10 10)
   \<and> fst (createTask buy_milk ''n2'' 20 20 (snd (createTask buy_milk ''n1'' 10 10 world_flaky)))
        = Inr (newTask buy_milk ''n2'' 20 20)"
    by (simp add: world_flaky_def world_empty_def
        createTask_def getAllTasks_def saveTasks_def AsyncStorage_getItem_def
        AsyncStorage_setItem_def next_outcome_def emitChange_def Let_def)
  from c g r m show ?thesis by blast
qed

theorem replay_equivalence_witness:
  "rejections world_empty = [] \<and> tasks_item world_empty = None
   \<and> fst (getAllTasks (run_ops demo_ops world_empty))
       = [\<lparr>task_id = ''n1'', title = ''Buy milk'', description = None, completed = True,
           dueDate = None, tags = [], createdAt = 10, updatedAt = 30\<rparr>]"
proof -
  have r: "rejections world_empty = []" and i: "tasks_item world_empty = None"
    by (simp_all add: world_empty_def)
  have "replay demo_ops
       = [\<lparr>task_id = ''n1'', title = ''Buy milk'', description = None, completed = True,
           dueDate = None, tags = [], createdAt = 10, updatedAt = 30\<rparr>]"
    by (simp add: replay_def demo_ops_def newTask_def buy_milk_def blank_input_def trim_def
        is_whitespace_def updatedTask_def spread_def no_updates_def)
  with replay_equivalence [OF r i, of demo_ops] r i show ?thesis by simp
qed

section \<open>The derived view\<close>

lemma filterCallback_spec:
  "filterCallback f t =
     (status_keeps (status f) t
      \<and> (case searchQuery f of None \<Rightarrow> True
          | Some q \<Rightarrow> if trim q = [] then True else search_keeps q t))"
  by (cases "status f")
    (auto simp: filterCallback_def status_keeps_def search_keeps_def contains_ci_def Let_def
      split: option.splits)

lemma compare_key: "compareTasks a b \<le> 0 \<longleftrightarrow> view_key a \<le> view_key b"
  by (auto simp: compareTasks_def view_key_def less_eq_prod_def)

lemma insert_by_insort: "insert_by compareTasks x ys = insort_key view_key x ys"
  by (induction ys) (simp_all add: compare_key)

lemma array_sort_sort_key: "array_sort compareTasks xs = sort_key view_key xs"
  by (induction xs) (simp_all add: array_sort_def sort_key_def insert_by_insort)

lemma precedes_key: "precedes a b \<longleftrightarrow> view_key a \<le> view_key b"
  by (auto simp: precedes_def view_key_def less_eq_prod_def)

lemma sorted_wrt_precedes: "sorted_wrt precedes (sort_key view_key xs)"
proof -
  have "sorted (map view_key (sort_key view_key xs))" by (rule sorted_sort_key)
  then show ?thesis
    by (simp add: sorted_map precedes_key[abs_def])
qed

lemma view_eq: "sortedFilteredTasks tasks f = view_spec tasks f"
proof -
  have "filter (filterCallback f) tasks =
        filter (\<lambda>t. case searchQuery f of None \<Rightarrow> True
                     | Some q \<Rightarrow> if trim q = [] then True else search_keeps q t)
          (filter (status_keeps (status f)) tasks)"
    by (simp add: filterCallback_spec[abs_def] conj_commute)
  then show ?thesis
    by (simp add: sortedFilteredTasks_def view_spec_def array_sort_sort_key)
qed

lemma view_example:
  assumes "\<not> completed A" "completed B" "\<not> completed C"
    and "createdAt A < createdAt B" "createdAt B < createdAt C"
  shows "sortedFilteredTasks [A, B, C] all_filter = [C, A, B]"
    and "sortedFilteredTasks [A, B, C] completed_filter = [B]"
  using assms
  by (simp_all add: sortedFilteredTasks_def filterCallback_def all_filter_def completed_filter_def
      array_sort_def compareTasks_def)

text \<open>
  Claim C3 (derived view), as amended. For every task collection and filter, the visible
  sequence is the result of keeping the tasks that match the status, then keeping the
  tasks whose title or description contains the search string in lower case when a search
  string is present and not blank, then sorting incomplete before completed and newer
  before older; the sequence is ordered by \<open>precedes\<close>. For tasks A (incomplete, created
  T1), B (completed, T2 > T1) and C (incomplete, T3 > T2) the "all" view is [C, A, B] and
  the "completed" view is [B]. The status \<open>overdue\<close> of the type, which the specification
  does not have, keeps every task, as the default branch of the switch does.
\<close>

theorem derived_view:
  "sortedFilteredTasks tasks f = view_spec tasks f
   \<and> sorted_wrt precedes (sortedFilteredTasks tasks f)
   \<and> (\<not> completed A \<and> completed B \<and> \<not> completed C
        \<and> createdAt A < createdAt B \<and> createdAt B < createdAt C \<longrightarrow>
      sortedFilteredTasks [A, B, C] all_filter = [C, A, B]
      \<and> sortedFilteredTasks [A, B, C] completed_filter = [B])"
proof (intro conjI impI)
  show "sortedFilteredTasks tasks f = view_spec tasks f" by (rule view_eq)
  show "sorted_wrt precedes (sortedFilteredTasks tasks f)"
    unfolding sortedFilteredTasks_def array_sort_sort_key by (rule sorted_wrt_precedes)
next
  assume "\<not> completed A \<and> completed B \<and> \<not> completed C
        \<and> createdAt A < createdAt B \<and> createdAt B < createdAt C"
  then show "sortedFilteredTasks [A, B, C] all_filter = [C, A, B]"
    and "sortedFilteredTasks [A, B, C] completed_filter = [B]"
    using view_example[of A B C] by blast+
qed

lemma lower_report: "toLowerCase ''REPORT'' = ''report''"
  "toLowerCase ''Write report'' = ''write report''"
  "toLowerCase ''Call Bob'' = ''call bob''"
  "toLowerCase ''about the Report'' = ''about the report''"
  "toLowerCase ''Laundry'' = ''laundry''"
  "toLowerCase '' '' = '' ''"
  by code_simp+

theorem derived_view_counterexample:
  "sortedFilteredTasks [task_c] blank_search = [task_c]
   \<and> view_claimed [task_c] blank_search = []
   \<and> sortedFilteredTasks [task_c] blank_search \<noteq> view_claimed [task_c] blank_search"
  by (simp add: sortedFilteredTasks_def filterCallback_def view_claimed_def blank_search_def
      task_c_def trim_def is_whitespace_def array_sort_def status_keeps_def search_keeps_def
      contains_ci_def lower_report)

theorem derived_view_witness:
  "\<not> completed task_a \<and> completed task_b \<and> \<not> completed task_c
   \<and> createdAt task_a < createdAt task_b \<and> createdAt task_b < createdAt task_c
   \<and> sortedFilteredTasks [task_a, task_b, task_c] all_filter = [task_c, task_a, task_b]
   \<and> sortedFilteredTasks [task_a, task_b, task_c] completed_filter = [task_b]
   \<and> view_spec [task_c, task_b, task_a] report_search = [task_a, task_b]"
proof -
  have h: "\<not> completed task_a \<and> completed task_b \<and> \<not> completed task_c
   \<and> createdAt task_a < createdAt task_b \<and> createdAt task_b < createdAt task_c"
    by (simp add: task_a_def task_b_def task_c_def)
  have s: "sortedFilteredTasks [task_c, task_b, task_a] report_search = [task_a, task_b]"
    by (simp add: sortedFilteredTasks_def filterCallback_def report_search_def trim_def
        is_whitespace_def task_a_def task_b_def task_c_def lower_report array_sort_def
        compareTasks_def)
  from derived_view [of "[task_c, task_b, task_a]" report_search task_a task_b task_c] h s
  show ?thesis by simp
qed

section \<open>The tag registry\<close>

lemma getAllTags_served:
  "tag_rejections s = [] \<Longrightarrow> getAllTags s = (registry s, s\<lparr>tag_log := tag_log s @ [(GetItem, True)]\<rparr>)"
  by (simp add: getAllTags_def tag_outcome_def registry_def split: option.splits)

lemma saveTags_served:
  "tag_rejections s = [] \<Longrightarrow>
   saveTags ts s = (Inr (), s\<lparr>tag_log := tag_log s @ [(SetItem, True)], tags_item := Some ts\<rparr>)"
  by (simp add: saveTags_def tag_outcome_def)

lemma getNextColor_unused:
  assumes "\<exists>c \<in> set TAG_COLORS. c \<notin> set (map color existing)"
  shows "getNextColor existing \<notin> set (map color existing) \<and> getNextColor existing \<in> set TAG_COLORS"
proof -
  let ?av = "filter (\<lambda>c. c \<notin> set (map color existing)) TAG_COLORS"
  from assms have ne: "?av \<noteq> []" by (auto simp: filter_empty_conv)
  then have "0 < length ?av" by (rule length_greater_0_conv[THEN iffD2])
  then have "?av ! 0 \<in> set ?av" by (rule nth_mem)
  then have "?av ! 0 \<in> {c \<in> set TAG_COLORS. c \<notin> set (map color existing)}"
    by (simp only: set_filter)
  then have "?av ! 0 \<notin> set (map color existing) \<and> ?av ! 0 \<in> set TAG_COLORS" by blast
  moreover have "getNextColor existing = ?av ! 0"
    using ne by (simp add: getNextColor_def Let_def)
  ultimately show ?thesis by simp
qed

lemma getNextColor_cycle:
  assumes "\<forall>c \<in> set TAG_COLORS. c \<in> set (map color existing)"
  shows "getNextColor existing = TAG_COLORS ! (length existing mod 12)"
proof -
  from assms have "filter (\<lambda>c. c \<notin> set (map color existing)) TAG_COLORS = []"
    by (auto simp: filter_empty_conv)
  moreover have "length TAG_COLORS = 12" by (simp add: TAG_COLORS_def)
  ultimately show ?thesis by (simp add: getNextColor_def Let_def)
qed

lemma find_matches:
  "(\<exists>t \<in> set ts. P t) \<Longrightarrow> \<exists>t. find P ts = Some t \<and> t \<in> set ts \<and> P t"
  by (induction ts) auto

text \<open>
  Claim C8 (tag registry), as amended. On a storage that serves its calls: when a
  registered tag matches the name, \<open>createOrGetTag\<close> returns a registered tag that matches
  and writes nothing; otherwise it appends a new tag with the id given and the trimmed
  name to the registry and returns it. The colour of the new tag is a palette colour no
  registered tag has when such a colour is left; when every palette colour is in use it
  is the palette colour at the number of registered tags modulo 12.
\<close>

theorem createOrGetTag_registry:
  assumes "tag_rejections s = []"
  shows "((\<exists>t \<in> set (registry s). name_matches nm t) \<longrightarrow>
            (\<exists>t. fst (createOrGetTag nm new_id s) = Inr t \<and> t \<in> set (registry s) \<and> name_matches nm t
               \<and> tags_item (snd (createOrGetTag nm new_id s)) = tags_item s
               \<and> tag_writes (snd (createOrGetTag nm new_id s)) = tag_writes s))
     \<and> (\<not> (\<exists>t \<in> set (registry s). name_matches nm t) \<longrightarrow>
            (\<exists>t. fst (createOrGetTag nm new_id s) = Inr t
               \<and> registry (snd (createOrGetTag nm new_id s)) = registry s @ [t]
               \<and> tag_id t = new_id \<and> name t = trim nm
               \<and> ((\<exists>c \<in> set TAG_COLORS. c \<notin> set (map color (registry s))) \<longrightarrow>
                     color_is_new t (registry s) \<and> color t \<in> set TAG_COLORS)
               \<and> ((\<forall>c \<in> set TAG_COLORS. c \<in> set (map color (registry s))) \<longrightarrow>
                     color t = TAG_COLORS ! (length (registry s) mod 12))))"
proof (intro conjI impI)
  assume "\<exists>t \<in> set (registry s). name_matches nm t"
  from find_matches[OF this] obtain t where
    f: "find (name_matches nm) (registry s) = Some t" and t: "t \<in> set (registry s)" "name_matches nm t"
    by blast
  have "createOrGetTag nm new_id s = (Inr t, s\<lparr>tag_log := tag_log s @ [(GetItem, True)]\<rparr>)"
    using assms f by (simp add: createOrGetTag_def getAllTags_served name_matches_def[abs_def])
  then show "\<exists>t. fst (createOrGetTag nm new_id s) = Inr t \<and> t \<in> set (registry s) \<and> name_matches nm t
               \<and> tags_item (snd (createOrGetTag nm new_id s)) = tags_item s
               \<and> tag_writes (snd (createOrGetTag nm new_id s)) = tag_writes s"
    using t by (simp add: tag_writes_def)
next
  assume "\<not> (\<exists>t \<in> set (registry s). name_matches nm t)"
  then have f: "find (name_matches nm) (registry s) = None"
    by (simp add: find_None_iff)
  let ?t = "\<lparr>tag_id = new_id, name = trim nm, color = getNextColor (registry s)\<rparr>"
  have c: "createOrGetTag nm new_id s =
      (Inr ?t, s\<lparr>tag_log := tag_log s @ [(GetItem, True), (SetItem, True)],
                 tags_item := Some (registry s @ [?t])\<rparr>)"
    using assms f
    by (simp add: createOrGetTag_def getAllTags_served saveTags_served name_matches_def[abs_def] Let_def)
  show "\<exists>t. fst (createOrGetTag nm new_id s) = Inr t
               \<and> registry (snd (createOrGetTag nm new_id s)) = registry s @ [t]
               \<and> tag_id t = new_id \<and> name t = trim nm
               \<and> ((\<exists>c \<in> set TAG_COLORS. c \<notin> set (map color (registry s))) \<longrightarrow>
                     color_is_new t (registry s) \<and> color t \<in> set TAG_COLORS)
               \<and> ((\<forall>c \<in> set TAG_COLORS. c \<in> set (map color (registry s))) \<longrightarrow>
                     color t = TAG_COLORS ! (length (registry s) mod 12))"
    apply (rule exI[of _ ?t])
    using getNextColor_unused[of "registry s"] getNextColor_cycle[of "registry s"]
    by (simp add: c color_is_new_def registry_def)
qed

theorem createOrGetTag_registry_counterexample:
  "list_all (\<lambda>t. \<not> name_matches ''work'' t) (registry full_store)
   \<and> fst (createOrGetTag ''work'' ''n1'' full_store)
       = Inr \<lparr>tag_id = ''n1'', name = ''work'', color = ''#FF6B6B''\<rparr>
   \<and> \<not> color_is_new \<lparr>tag_id = ''n1'', name = ''work'', color = ''#FF6B6B''\<rparr> (registry full_store)"
  by code_simp

theorem createOrGetTag_registry_witness:
  "tag_rejections two_tags = []
   \<and> fst (createOrGetTag ''  home '' ''n1'' two_tags)
        = Inr \<lparr>tag_id = ''t1'', name = ''Home'', color = ''#FF6B6B''\<rparr>
   \<and> tags_item (snd (createOrGetTag ''  home '' ''n1'' two_tags)) = tags_item two_tags
   \<and> fst (createOrGetTag ''Errands'' ''n1'' two_tags)
        = Inr \<lparr>tag_id = ''n1'', name = ''Errands'', color = ''#4ECDC4''\<rparr>
   \<and> color_is_new \<lparr>tag_id = ''n1'', name = ''Errands'', color = ''#4ECDC4''\<rparr> (registry two_tags)"
proof -
  have r: "tag_rejections two_tags = []" by (simp add: two_tags_def)
  have m: "\<exists>t \<in> set (registry two_tags). name_matches ''  home '' t"
    by code_simp
  have n: "\<not> (\<exists>t \<in> set (registry two_tags). name_matches ''Errands'' t)"
    by code_simp
  have u: "\<exists>c \<in> set TAG_COLORS. c \<notin> set (map color (registry two_tags))"
    by code_simp
  have v1: "fst (createOrGetTag ''  home '' ''n1'' two_tags)
        = Inr \<lparr>tag_id = ''t1'', name = ''Home'', color = ''#FF6B6B''\<rparr>"
    by code_simp
  have v2: "fst (createOrGetTag ''Errands'' ''n1'' two_tags)
        = Inr \<lparr>tag_id = ''n1'', name = ''Errands'', color = ''#4ECDC4''\<rparr>"
    by code_simp
  from createOrGetTag_registry [OF r, of "''  home ''" "''n1''"] m
  have a: "tags_item (snd (createOrGetTag ''  home '' ''n1'' two_tags)) = tags_item two_tags"
    by blast
  from createOrGetTag_registry [OF r, of "''Errands''" "''n1''"] n u v2
  have b: "color_is_new \<lparr>tag_id = ''n1'', name = ''Errands'', color = ''#4ECDC4''\<rparr> (registry two_tags)"
    by auto
  from r v1 a v2 b show ?thesis by simp
qed

section \<open>When the storage rejects a call\<close>

text \<open>
  A rejected read is taken for an empty collection, so the write that follows it keeps
  only the new task; a rejected write is thrown to the caller and changes nothing. The
  statements about a storage that serves its calls do not extend to these cases.
\<close>

lemma rejected_read_is_empty: "fst (getAllTasks world_read_rejected) = []"
  by (simp add: run_defs world_read_rejected_def world_ab_def)

lemma rejected_read_loses_tasks:
  "stored (snd (createTask buy_milk ''n1'' 10 10 world_read_rejected))
     = [newTask buy_milk ''n1'' 10 10]"
  by (simp add: run_defs world_read_rejected_def world_ab_def stored_def)

lemma rejected_write_is_thrown:
  "fst (deleteTask ''a'' world_write_rejected) = Inl StorageError"
  "tasks_item (snd (deleteTask ''a'' world_write_rejected)) = tasks_item world_ab"
  "calls (snd (deleteTask ''a'' world_write_rejected)) = calls world_ab"
  by (simp_all add: run_defs world_write_rejected_def world_ab_def task_a_def task_b_def)

text \<open>The validation step refuses the blank title that \<open>createTask\<close> stores.\<close>

lemma validateTaskInput_blank:
  "(\<forall>c \<in> set (in_title input). is_whitespace c) \<Longrightarrow>
     ''Task title is required'' \<in> set (validateTaskInput input)"
  by (simp add: validateTaskInput_def trim_blank)

end
